theory Spec2Isabelle
  imports Main "HOL-Library.AList" "HOL-Library.Sublist" "HOL-Library.Char_ord"
    "HOL-Library.List_Lexorder"
begin

section \<open>Documents\<close>

text \<open>
  A policy or defaults document is what the YAML loader returns: nested mappings and
  sequences over scalars. Mappings are insertion-ordered association lists with string
  keys (assigning to an existing key keeps its position, a new key goes to the end), which
  is how a Python dict iterates. Scalars are null, booleans, integers and strings; floats and
  dates are outside the model. Characters are single bytes.

  The functions below compute the value a call returns. Where the source mutates an
  argument in place and returns it (\<^verbatim>\<open>_array_merge\<close> returns \<^verbatim>\<open>update\<close>,
  \<^verbatim>\<open>_merge_conf\<close> returns \<^verbatim>\<open>base\<close>), the returned value is the mutated
  object. The documents given to a call are trees that share no object with each other.
\<close>

datatype yval =
    YNone
  | YBool bool
  | YInt int
  | YStr string
  | YList "yval list"
  | YDict "(string \<times> yval) list"

datatype shape_error =
    NonArrayDefaults
  | DefaultsDictWithoutType
  | DuplicateDefaultsType

datatype error =
    RuntimeError shape_error
  | KeyError string
  | AttributeError
  | TypeError
  | SystemExit
  | Unsupported

type_synonym 'a result = "error + 'a"

subsection \<open>Python equality, membership and item access\<close>

text \<open>
  \<^verbatim>\<open>==\<close> on loaded values: mappings compare regardless of key order, sequences
  elementwise, and a boolean equals the integer 0 or 1.
\<close>

fun py_eq :: "yval \<Rightarrow> yval \<Rightarrow> bool"
  and py_eq_list :: "yval list \<Rightarrow> yval list \<Rightarrow> bool"
  and py_eq_items :: "(string \<times> yval) list \<Rightarrow> (string \<times> yval) list \<Rightarrow> bool"
where
  "py_eq YNone w = (w = YNone)"
| "py_eq (YBool a) w =
     (case w of YBool b \<Rightarrow> a = b | YInt j \<Rightarrow> j = (if a then 1 else 0) | _ \<Rightarrow> False)"
| "py_eq (YInt i) w =
     (case w of YInt j \<Rightarrow> i = j | YBool b \<Rightarrow> i = (if b then 1 else 0) | _ \<Rightarrow> False)"
| "py_eq (YStr s) w = (w = YStr s)"
| "py_eq (YList xs) w = (case w of YList ys \<Rightarrow> py_eq_list xs ys | _ \<Rightarrow> False)"
| "py_eq (YDict xs) w =
     (case w of YDict ys \<Rightarrow> length xs = length ys \<and> py_eq_items xs ys | _ \<Rightarrow> False)"
| "py_eq_list [] ys = (ys = [])"
| "py_eq_list (x # xs) ys =
     (case ys of [] \<Rightarrow> False | y # ys' \<Rightarrow> py_eq x y \<and> py_eq_list xs ys')"
| "py_eq_items [] ys = True"
| "py_eq_items (kv # xs) ys =
     (case map_of ys (fst kv) of
        None \<Rightarrow> False
      | Some w \<Rightarrow> py_eq (snd kv) w \<and> py_eq_items xs ys)"

text \<open>\<^verbatim>\<open>x in seq\<close> for a list.\<close>

definition py_in :: "yval \<Rightarrow> yval list \<Rightarrow> bool" where
  "py_in x xs = list_ex (\<lambda>y. py_eq y x) xs"

definition keys :: "(string \<times> 'a) list \<Rightarrow> string list" where
  "keys d = map fst d"

text \<open>\<^verbatim>\<open>v.get(k, default)\<close>: only a mapping has the method.\<close>

definition py_get :: "yval \<Rightarrow> string \<Rightarrow> yval \<Rightarrow> yval result" where
  "py_get v k dflt =
     (case v of
        YDict d \<Rightarrow> Inr (case map_of d k of Some x \<Rightarrow> x | None \<Rightarrow> dflt)
      | _ \<Rightarrow> Inl AttributeError)"

text \<open>
  \<^verbatim>\<open>k in base\<close> for a string \<open>k\<close>: key membership on a mapping, substring test on a
  string, element membership on a sequence, \<^verbatim>\<open>TypeError\<close> on the other scalars.
\<close>

definition py_has_key :: "yval \<Rightarrow> string \<Rightarrow> bool result" where
  "py_has_key base k =
     (case base of
        YDict d \<Rightarrow> Inr (k \<in> set (keys d))
      | YStr s \<Rightarrow> Inr (sublist k s)
      | YList xs \<Rightarrow> Inr (py_in (YStr k) xs)
      | _ \<Rightarrow> Inl TypeError)"

text \<open>\<^verbatim>\<open>base[k]\<close>, \<^verbatim>\<open>base[k] = v\<close> and \<^verbatim>\<open>del base[k]\<close> with a string key.\<close>

definition py_getitem :: "yval \<Rightarrow> string \<Rightarrow> yval result" where
  "py_getitem base k =
     (case base of
        YDict d \<Rightarrow> (case map_of d k of Some x \<Rightarrow> Inr x | None \<Rightarrow> Inl (KeyError k))
      | _ \<Rightarrow> Inl TypeError)"

definition py_setitem :: "yval \<Rightarrow> string \<Rightarrow> yval \<Rightarrow> yval result" where
  "py_setitem base k v =
     (case base of
        YDict d \<Rightarrow> Inr (YDict (AList.update k v d))
      | _ \<Rightarrow> Inl TypeError)"

definition py_delitem :: "yval \<Rightarrow> string \<Rightarrow> yval result" where
  "py_delitem base k =
     (case base of
        YDict d \<Rightarrow> if k \<in> set (keys d) then Inr (YDict (AList.delete k d)) else Inl (KeyError k)
      | _ \<Rightarrow> Inl TypeError)"

text \<open>
  A mapping key must be hashable, and \<^verbatim>\<open>True\<close> and \<^verbatim>\<open>1\<close> are the same key. The
  dictionary \<^verbatim>\<open>def_dicts\<close> is kept under normalised keys, so that looking a key up is
  \<^const>\<open>map_of\<close>.
\<close>

fun hashable :: "yval \<Rightarrow> bool" where
  "hashable (YList _) = False"
| "hashable (YDict _) = False"
| "hashable _ = True"

fun norm_key :: "yval \<Rightarrow> yval" where
  "norm_key (YBool b) = YInt (if b then 1 else 0)"
| "norm_key v = v"

section \<open>StructuralMerger\<close>

subsection \<open>\<^verbatim>\<open>_array_merge\<close>\<close>

type_synonym def_dicts = "(yval \<times> (string \<times> yval) list) list"

text \<open>\<^verbatim>\<open>v.get('type', None)\<close> on a mapping.\<close>

definition type_of :: "(string \<times> yval) list \<Rightarrow> yval" where
  "type_of d = (case map_of d ''type'' of Some t \<Rightarrow> t | None \<Rightarrow> YNone)"

text \<open>
  First loop (\<^verbatim>\<open>for v in base\<close>): an entry that is not a mapping is appended to
  \<open>update\<close> unless already there; a mapping is filed in \<open>def_dicts\<close> under its type.
\<close>

fun find_defaults :: "yval list \<Rightarrow> yval list \<Rightarrow> def_dicts \<Rightarrow> (yval list \<times> def_dicts) result" where
  "find_defaults [] update dd = Inr (update, dd)"
| "find_defaults (v # base) update dd =
     (case v of
        YDict d \<Rightarrow>
          (let t = type_of d in
           if t = YNone then Inl (RuntimeError DefaultsDictWithoutType)
           else if \<not> hashable t then Inl TypeError
           else if norm_key t \<in> set (map fst dd) then Inl (RuntimeError DuplicateDefaultsType)
           else find_defaults base update (dd @ [(norm_key t, d)]))
      | _ \<Rightarrow> find_defaults base (if py_in v update then update else update @ [v]) dd)"

text \<open>\<^verbatim>\<open>for k, v in def_dicts[t].items(): if k not in i: i[k] = v\<close>\<close>

fun fill_missing :: "(string \<times> yval) list \<Rightarrow> (string \<times> yval) list \<Rightarrow> (string \<times> yval) list" where
  "fill_missing [] i = i"
| "fill_missing (kv # d) i =
     fill_missing d (if fst kv \<in> set (keys i) then i else i @ [kv])"

text \<open>Second loop (\<^verbatim>\<open>for i in update\<close>): one entry.\<close>

definition do_update :: "yval \<Rightarrow> def_dicts \<Rightarrow> (yval \<times> def_dicts) result" where
  "do_update i dd =
     (case i of
        YDict e \<Rightarrow>
          (let t = type_of e in
           if t = YNone then Inr (i, dd)
           else if \<not> hashable t then Inl TypeError
           else (case map_of dd (norm_key t) of
                   None \<Rightarrow> Inr (i, dd)
                 | Some d \<Rightarrow> Inr (YDict (fill_missing d e), AList.delete (norm_key t) dd)))
      | _ \<Rightarrow> Inr (i, dd))"

fun do_updates :: "yval list \<Rightarrow> def_dicts \<Rightarrow> (yval list \<times> def_dicts) result" where
  "do_updates [] dd = Inr ([], dd)"
| "do_updates (i # update) dd =
     (case do_update i dd of
        Inl e \<Rightarrow> Inl e
      | Inr (i', dd') \<Rightarrow>
          (case do_updates update dd' of
             Inl e \<Rightarrow> Inl e
           | Inr (update', dd'') \<Rightarrow> Inr (i' # update', dd'')))"

text \<open>Third loop: the defaults nobody consumed, without a top-level \<^verbatim>\<open>notify\<close> action.\<close>

definition add_remaining :: "def_dicts \<Rightarrow> string list \<Rightarrow> yval list" where
  "add_remaining dd path =
     map (\<lambda>kv. YDict (snd kv))
       (filter (\<lambda>kv. \<not> (path = [''actions''] \<and> py_eq (fst kv) (YStr ''notify''))) dd)"

definition array_merge :: "yval \<Rightarrow> yval list \<Rightarrow> string list \<Rightarrow> yval list result" where
  "array_merge base update path =
     (case base of
        YList bs \<Rightarrow>
          (case find_defaults bs update [] of
             Inl e \<Rightarrow> Inl e
           | Inr (update1, dd) \<Rightarrow>
               (case do_updates update1 dd of
                  Inl e \<Rightarrow> Inl e
                | Inr (update2, dd') \<Rightarrow> Inr (update2 @ add_remaining dd' path)))
      | _ \<Rightarrow> Inl (RuntimeError NonArrayDefaults))"

subsection \<open>\<^verbatim>\<open>_merge_conf\<close>\<close>

text \<open>
  The guard of the short-circuit: \<^verbatim>\<open>kpath == ['mode'] and v.get('type', 'periodic') != 'periodic'\<close>.
\<close>

definition mode_short_circuit :: "string list \<Rightarrow> yval \<Rightarrow> bool result" where
  "mode_short_circuit kpath v =
     (if kpath = [''mode''] then
        (case py_get v ''type'' (YStr ''periodic'') of
           Inl e \<Rightarrow> Inl e
         | Inr t \<Rightarrow> Inr (\<not> py_eq t (YStr ''periodic'')))
      else Inr False)"

fun merge_conf :: "yval \<Rightarrow> (string \<times> yval) list \<Rightarrow> string list \<Rightarrow> yval result"
  and merge_items :: "yval \<Rightarrow> (string \<times> yval) list \<Rightarrow> string list \<Rightarrow> yval result"
where
  "merge_conf base update path =
     (case merge_items base update path of
        Inl e \<Rightarrow> Inl e
      | Inr base' \<Rightarrow>
          if path = [] then
            (case py_has_key base' ''actions'' of
               Inl e \<Rightarrow> Inl e
             | Inr has \<Rightarrow>
                 if has \<and> ''actions'' \<notin> set (keys update)
                 then py_delitem base' ''actions''
                 else Inr base')
          else Inr base')"
| "merge_items base [] path = Inr base"
| "merge_items base (kv # rest) path =
     (case mode_short_circuit (path @ [fst kv]) (snd kv) of
        Inl e \<Rightarrow> Inl e
      | Inr True \<Rightarrow>
          (case py_setitem base (fst kv) (snd kv) of
             Inl e \<Rightarrow> Inl e
           | Inr base' \<Rightarrow> merge_items base' rest path)
      | Inr False \<Rightarrow>
          (case py_has_key base (fst kv) of
             Inl e \<Rightarrow> Inl e
           | Inr False \<Rightarrow>
               (case py_setitem base (fst kv) (snd kv) of
                  Inl e \<Rightarrow> Inl e
                | Inr base' \<Rightarrow> merge_items base' rest path)
           | Inr True \<Rightarrow>
               (case snd kv of
                  YList u \<Rightarrow>
                    (case py_getitem base (fst kv) of
                       Inl e \<Rightarrow> Inl e
                     | Inr bk \<Rightarrow>
                         (case array_merge bk u (path @ [fst kv]) of
                            Inl e \<Rightarrow> Inl e
                          | Inr r \<Rightarrow>
                              (case py_setitem base (fst kv) (YList r) of
                                 Inl e \<Rightarrow> Inl e
                               | Inr base' \<Rightarrow> merge_items base' rest path)))
                | YDict u \<Rightarrow>
                    (case py_getitem base (fst kv) of
                       Inl e \<Rightarrow> Inl e
                     | Inr bk \<Rightarrow>
                         (case merge_conf bk u (path @ [fst kv]) of
                            Inl e \<Rightarrow> Inl e
                          | Inr r \<Rightarrow>
                              (case py_setitem base (fst kv) r of
                                 Inl e \<Rightarrow> Inl e
                               | Inr base' \<Rightarrow> merge_items base' rest path)))
                | _ \<Rightarrow>
                    (case py_setitem base (fst kv) (snd kv) of
                       Inl e \<Rightarrow> Inl e
                     | Inr base' \<Rightarrow> merge_items base' rest path))))"


section \<open>Defaulter\<close>

text \<open>
  The argument of \<^verbatim>\<open>dict.update\<close>: the entries of a mapping; an empty sequence or
  string adds nothing. A non-empty sequence of key/value pairs is outside the model.
\<close>

definition update_items :: "yval \<Rightarrow> (string \<times> yval) list result" where
  "update_items arg =
     (case arg of
        YDict d \<Rightarrow> Inr d
      | YList xs \<Rightarrow> if xs = [] then Inr [] else Inl Unsupported
      | YStr s \<Rightarrow> if s = [] then Inr [] else Inl Unsupported
      | _ \<Rightarrow> Inl TypeError)"

definition dict_update :: "(string \<times> yval) list \<Rightarrow> (string \<times> yval) list \<Rightarrow> (string \<times> yval) list" where
  "dict_update d items = fold (\<lambda>kv. AList.update (fst kv) (snd kv)) items d"

text \<open>\<^verbatim>\<open>defaults.get('mode', {}).get('tags', {})\<close>\<close>

definition default_tags :: "yval \<Rightarrow> yval result" where
  "default_tags defaults =
     (case py_get defaults ''mode'' (YDict []) of
        Inl e \<Rightarrow> Inl e
      | Inr m \<Rightarrow> py_get m ''tags'' (YDict []))"

text \<open>
  The two statements of \<^verbatim>\<open>_apply_defaults\<close> on \<^verbatim>\<open>conf['mode']\<close>, as a function of
  the merged mode: the result is the new value of \<^verbatim>\<open>conf['mode']\<close>.
\<close>

definition ensure_tags :: "yval \<Rightarrow> yval result" where
  "ensure_tags mode =
     (case py_getitem mode ''type'' of
        Inl e \<Rightarrow> Inl e
      | Inr ty \<Rightarrow>
          if py_eq ty (YStr ''periodic'') then
            (case py_has_key mode ''tags'' of
               Inl e \<Rightarrow> Inl e
             | Inr has \<Rightarrow> if has then Inr mode else py_setitem mode ''tags'' (YDict []))
          else Inr mode)"

definition component_tag :: "yval \<Rightarrow> yval \<Rightarrow> yval \<Rightarrow> yval result" where
  "component_tag defaults name mode =
     (case py_has_key mode ''tags'' of
        Inl e \<Rightarrow> Inl e
      | Inr False \<Rightarrow> Inr mode
      | Inr True \<Rightarrow>
          (case py_getitem mode ''tags'' of
             Inl e \<Rightarrow> Inl e
           | Inr (YDict tags) \<Rightarrow>
               (case default_tags defaults of
                  Inl e \<Rightarrow> Inl e
                | Inr dt \<Rightarrow>
                    (case update_items dt of
                       Inl e \<Rightarrow> Inl e
                     | Inr items \<Rightarrow>
                         py_setitem mode ''tags''
                           (YDict (AList.update ''Component'' name (dict_update tags items)))))
           | Inr _ \<Rightarrow> Inl AttributeError))"

subsection \<open>\<^verbatim>\<open>_add_always_notify\<close>\<close>

text \<open>\<^verbatim>\<open>for v in x\<close>: a mapping yields its keys, a string its characters.\<close>

definition py_iter :: "yval \<Rightarrow> yval list result" where
  "py_iter x =
     (case x of
        YList xs \<Rightarrow> Inr xs
      | YDict d \<Rightarrow> Inr (map YStr (keys d))
      | YStr s \<Rightarrow> Inr (map (\<lambda>c. YStr [c]) s)
      | _ \<Rightarrow> Inl TypeError)"

text \<open>
  \<^verbatim>\<open>if to_addr not in action['to']: action['to'].append(to_addr)\<close>, on the current
  value of \<^verbatim>\<open>action['to']\<close>. Only a list has \<^verbatim>\<open>append\<close>.
\<close>

definition add_to_addr :: "yval \<Rightarrow> yval \<Rightarrow> yval result" where
  "add_to_addr to to_addr =
     (case to of
        YList l \<Rightarrow> Inr (YList (if py_in to_addr l then l else l @ [to_addr]))
      | YStr s \<Rightarrow>
          (case to_addr of
             YStr x \<Rightarrow> if sublist x s then Inr to else Inl AttributeError
           | _ \<Rightarrow> Inl TypeError)
      | YDict d \<Rightarrow>
          (case to_addr of
             YStr x \<Rightarrow> if x \<in> set (keys d) then Inr to else Inl AttributeError
           | _ \<Rightarrow> if hashable to_addr then Inl AttributeError else Inl TypeError)
      | _ \<Rightarrow> Inl TypeError)"

fun add_to_addrs :: "yval \<Rightarrow> yval list \<Rightarrow> yval result" where
  "add_to_addrs to [] = Inr to"
| "add_to_addrs to (to_addr # rest) =
     (case add_to_addr to to_addr of
        Inl e \<Rightarrow> Inl e
      | Inr to' \<Rightarrow> add_to_addrs to' rest)"

text \<open>The body of the loop once an action with the desired transport is found.\<close>

definition merge_recipients :: "(string \<times> yval) list \<Rightarrow> (string \<times> yval) list \<Rightarrow> (string \<times> yval) list result" where
  "merge_recipients desired action =
     (let action1 = (if ''to'' \<in> set (keys action) then action
                     else AList.update ''to'' (YList []) action)
      in case map_of desired ''to'' of
           None \<Rightarrow> Inl (KeyError ''to'')
         | Some dto \<Rightarrow>
             (case py_iter dto of
                Inl e \<Rightarrow> Inl e
              | Inr addrs \<Rightarrow>
                  (case map_of action1 ''to'' of
                     None \<Rightarrow> Inl (KeyError ''to'')
                   | Some to \<Rightarrow>
                       (case add_to_addrs to addrs of
                          Inl e \<Rightarrow> Inl e
                        | Inr to' \<Rightarrow> Inr (AList.update ''to'' to' action1)))))"

text \<open>
  The three tests that skip an action. \<^verbatim>\<open>desired['transport']\<close> is read only for a
  mapping of type notify.
\<close>

definition wanted_action :: "(string \<times> yval) list \<Rightarrow> yval \<Rightarrow> bool result" where
  "wanted_action desired action =
     (case action of
        YDict a \<Rightarrow>
          if \<not> py_eq (case map_of a ''type'' of Some t \<Rightarrow> t | None \<Rightarrow> YNone) (YStr ''notify'')
          then Inr False
          else (case map_of desired ''transport'' of
                  None \<Rightarrow> Inl (KeyError ''transport'')
                | Some tr \<Rightarrow>
                    Inr (py_eq (case map_of a ''transport'' of Some t \<Rightarrow> t | None \<Rightarrow> YDict []) tr))
      | _ \<Rightarrow> Inr False)"

text \<open>
  The loop over \<^verbatim>\<open>conf['actions']\<close>: the actions after the loop and the flag
  \<^verbatim>\<open>added\<close>. The loop breaks at the first wanted action.
\<close>

fun notify_scan :: "(string \<times> yval) list \<Rightarrow> yval list \<Rightarrow> (yval list \<times> bool) result" where
  "notify_scan desired [] = Inr ([], False)"
| "notify_scan desired (action # rest) =
     (case wanted_action desired action of
        Inl e \<Rightarrow> Inl e
      | Inr False \<Rightarrow>
          (case notify_scan desired rest of
             Inl e \<Rightarrow> Inl e
           | Inr (rest', added) \<Rightarrow> Inr (action # rest', added))
      | Inr True \<Rightarrow>
          (case action of
             YDict a \<Rightarrow>
               (case merge_recipients desired a of
                  Inl e \<Rightarrow> Inl e
                | Inr a' \<Rightarrow> Inr (YDict a' # rest, True))
           | _ \<Rightarrow> Inr (action # rest, True)))"

text \<open>
  The configuration object is not part of the source file; \<open>always_notify\<close> is its
  attribute of that name, \<open>None\<close> when reading the attribute raises \<^verbatim>\<open>AttributeError\<close>.
\<close>

definition add_always_notify :: "yval option \<Rightarrow> yval \<Rightarrow> yval result" where
  "add_always_notify always_notify conf =
     (case always_notify of
        None \<Rightarrow> Inr conf
      | Some cfg \<Rightarrow>
          (case cfg of
             YDict c \<Rightarrow>
               (let desired = AList.update ''type'' (YStr ''notify'') c in
                case py_getitem conf ''actions'' of
                  Inl e \<Rightarrow> Inl e
                | Inr actions \<Rightarrow>
                    (case py_iter actions of
                       Inl e \<Rightarrow> Inl e
                     | Inr acts \<Rightarrow>
                         (case notify_scan desired acts of
                            Inl e \<Rightarrow> Inl e
                          | Inr (acts', added) \<Rightarrow>
                              (case actions of
                                 YList _ \<Rightarrow>
                                   py_setitem conf ''actions''
                                     (YList (if added then acts' else acts' @ [YDict desired]))
                               | _ \<Rightarrow> if added then Inr conf else Inl AttributeError))))
           | _ \<Rightarrow> Inl TypeError))"

subsection \<open>\<^verbatim>\<open>_apply_defaults\<close>\<close>

definition apply_defaults :: "yval option \<Rightarrow> yval \<Rightarrow> yval \<Rightarrow> yval result" where
  "apply_defaults always_notify defaults policy =
     (case py_getitem policy ''name'' of
        Inl e \<Rightarrow> Inl e
      | Inr name \<Rightarrow>
          (case policy of
             YDict p \<Rightarrow>
               (case merge_conf defaults p [] of
                  Inl e \<Rightarrow> Inl e
                | Inr conf \<Rightarrow>
                    (case py_getitem conf ''mode'' of
                       Inl e \<Rightarrow> Inl e
                     | Inr mode \<Rightarrow>
                         (case ensure_tags mode of
                            Inl e \<Rightarrow> Inl e
                          | Inr mode1 \<Rightarrow>
                              (case component_tag defaults name mode1 of
                                 Inl e \<Rightarrow> Inl e
                               | Inr mode2 \<Rightarrow>
                                   (case py_setitem conf ''mode'' mode2 of
                                      Inl e \<Rightarrow> Inl e
                                    | Inr conf1 \<Rightarrow>
                                        (case py_has_key conf1 ''actions'' of
                                           Inl e \<Rightarrow> Inl e
                                         | Inr has \<Rightarrow>
                                             (case (if has then Inr conf1
                                                    else py_setitem conf1 ''actions'' (YList [])) of
                                                Inl e \<Rightarrow> Inl e
                                              | Inr conf2 \<Rightarrow> add_always_notify always_notify conf2)))))))
           | _ \<Rightarrow> Inl TypeError))"


section \<open>Text of values\<close>

text \<open>
  \<^verbatim>\<open>str\<close> and \<^verbatim>\<open>repr\<close> of a loaded value, used by \<^verbatim>\<open>'%s' % x\<close> and
  \<^verbatim>\<open>str(policy['filters'])\<close>. A string is quoted with single quotes, or with double
  quotes when it contains a single quote and no double quote; the quote, the backslash
  and control characters are escaped. Bytes from 128 on are left as they are.
\<close>

fun nat_digits :: "nat \<Rightarrow> string" where
  "nat_digits n =
     (if n < 10 then [''0123456789'' ! n]
      else nat_digits (n div 10) @ [''0123456789'' ! (n mod 10)])"

declare nat_digits.simps [simp del]

definition int_str :: "int \<Rightarrow> string" where
  "int_str i = (if i < 0 then CHR ''-'' # nat_digits (nat (- i)) else nat_digits (nat i))"

definition repr_quote :: "string \<Rightarrow> char" where
  "repr_quote s = (if CHR 0x27 \<in> set s \<and> CHR 0x22 \<notin> set s then CHR 0x22 else CHR 0x27)"

definition repr_char :: "char \<Rightarrow> char \<Rightarrow> string" where
  "repr_char q c =
     (if c = q \<or> c = CHR 0x5C then [CHR 0x5C, c]
      else if c = CHR 0x09 then [CHR 0x5C, CHR ''t'']
      else if c = CHR 0x0A then [CHR 0x5C, CHR ''n'']
      else if c = CHR 0x0D then [CHR 0x5C, CHR ''r'']
      else if (of_char c :: nat) < 32 \<or> c = CHR 0x7F then
        [CHR 0x5C, CHR ''x'', ''0123456789abcdef'' ! (of_char c div 16),
         ''0123456789abcdef'' ! (of_char c mod 16)]
      else [c])"

definition str_repr :: "string \<Rightarrow> string" where
  "str_repr s = [repr_quote s] @ concat (map (repr_char (repr_quote s)) s) @ [repr_quote s]"

fun py_repr :: "yval \<Rightarrow> string"
  and py_repr_list :: "yval list \<Rightarrow> string"
  and py_repr_items :: "(string \<times> yval) list \<Rightarrow> string"
where
  "py_repr YNone = ''None''"
| "py_repr (YBool b) = (if b then ''True'' else ''False'')"
| "py_repr (YInt i) = int_str i"
| "py_repr (YStr s) = str_repr s"
| "py_repr (YList xs) = ''['' @ py_repr_list xs @ '']''"
| "py_repr (YDict d) = ''{'' @ py_repr_items d @ ''}''"
| "py_repr_list [] = []"
| "py_repr_list (x # xs) = py_repr x @ (if xs = [] then [] else '', '' @ py_repr_list xs)"
| "py_repr_items [] = []"
| "py_repr_items (kv # d) =
     str_repr (fst kv) @ '': '' @ py_repr (snd kv)
       @ (if d = [] then [] else '', '' @ py_repr_items d)"

definition py_str :: "yval \<Rightarrow> string" where
  "py_str v = (case v of YStr s \<Rightarrow> s | _ \<Rightarrow> py_repr v)"

section \<open>PolicyValidator\<close>

subsection \<open>The three rules\<close>

text \<open>The text \<^verbatim>\<open>'type': 'marked-for-op'\<close> searched in \<^verbatim>\<open>str(policy['filters'])\<close>.\<close>

definition marked_for_op_text :: string where
  "marked_for_op_text =
     [CHR 0x27] @ ''type'' @ [CHR 0x27] @ '': '' @ [CHR 0x27] @ ''marked-for-op'' @ [CHR 0x27]"

text \<open>
  \<^verbatim>\<open>policy['filters'][0].get('type', '') == 'marked-for-op'\<close> inside
  \<^verbatim>\<open>try ... except AttributeError\<close>: a first filter without \<^verbatim>\<open>get\<close> is a failure of
  the rule; a mapping has no item 0.
\<close>

definition check_policy_marked_for_op_first :: "yval \<Rightarrow> bool result" where
  "check_policy_marked_for_op_first policy =
     (case py_has_key policy ''filters'' of
        Inl e \<Rightarrow> Inl e
      | Inr False \<Rightarrow> Inr True
      | Inr True \<Rightarrow>
          (case py_getitem policy ''filters'' of
             Inl e \<Rightarrow> Inl e
           | Inr filters \<Rightarrow>
               if \<not> sublist marked_for_op_text (py_str filters) then Inr True
               else (case filters of
                       YList fs \<Rightarrow>
                         (case fs of
                            [] \<Rightarrow> Inl (KeyError ''0'')
                          | f # _ \<Rightarrow>
                              (case py_get f ''type'' (YStr []) of
                                 Inl _ \<Rightarrow> Inr False
                               | Inr t \<Rightarrow> Inr (py_eq t (YStr ''marked-for-op''))))
                     | YStr _ \<Rightarrow> Inr False
                     | YDict _ \<Rightarrow> Inl (KeyError ''0'')
                     | _ \<Rightarrow> Inl TypeError)))"

text \<open>The loop that fills \<^verbatim>\<open>mark_tags\<close>; \<^verbatim>\<open>a['tag']\<close> is not guarded.\<close>

fun mark_tags :: "yval list \<Rightarrow> yval list result" where
  "mark_tags [] = Inr []"
| "mark_tags (a # actions) =
     (case a of
        YDict d \<Rightarrow>
          if \<not> py_eq (case map_of d ''type'' of Some t \<Rightarrow> t | None \<Rightarrow> YStr [])
                 (YStr ''mark-for-op'')
          then mark_tags actions
          else (case map_of d ''tag'' of
                  None \<Rightarrow> Inl (KeyError ''tag'')
                | Some t \<Rightarrow>
                    (case mark_tags actions of
                       Inl e \<Rightarrow> Inl e
                     | Inr ts \<Rightarrow> Inr (t # ts)))
      | _ \<Rightarrow> mark_tags actions)"

text \<open>\<^verbatim>\<open>{'tag:%s' % t: 'absent'}\<close>\<close>

definition tag_filter :: "yval \<Rightarrow> yval" where
  "tag_filter t = YDict [(''tag:'' @ py_str t, YStr ''absent'')]"

text \<open>\<^verbatim>\<open>x in filters\<close> for a mapping \<open>x\<close>: only a list can hold it.\<close>

definition dict_in :: "yval \<Rightarrow> yval \<Rightarrow> bool result" where
  "dict_in x container =
     (case container of
        YList xs \<Rightarrow> Inr (py_in x xs)
      | _ \<Rightarrow> Inl TypeError)"

fun tags_filtered :: "yval list \<Rightarrow> yval \<Rightarrow> bool result" where
  "tags_filtered [] filters = Inr True"
| "tags_filtered (t # ts) filters =
     (case dict_in (tag_filter t) filters of
        Inl e \<Rightarrow> Inl e
      | Inr False \<Rightarrow> Inr False
      | Inr True \<Rightarrow> tags_filtered ts filters)"

definition check_policy_mark_but_no_tag_filter :: "yval \<Rightarrow> bool result" where
  "check_policy_mark_but_no_tag_filter policy =
     (case py_has_key policy ''filters'' of
        Inl e \<Rightarrow> Inl e
      | Inr False \<Rightarrow> Inr True
      | Inr True \<Rightarrow>
          (case py_has_key policy ''actions'' of
             Inl e \<Rightarrow> Inl e
           | Inr False \<Rightarrow> Inr True
           | Inr True \<Rightarrow>
               (case py_getitem policy ''actions'' of
                  Inl e \<Rightarrow> Inl e
                | Inr actions \<Rightarrow>
                    (case py_iter actions of
                       Inl e \<Rightarrow> Inl e
                     | Inr acts \<Rightarrow>
                         (case mark_tags acts of
                            Inl e \<Rightarrow> Inl e
                          | Inr ts \<Rightarrow>
                              if ts = [] then Inr True
                              else (case py_getitem policy ''filters'' of
                                      Inl e \<Rightarrow> Inl e
                                    | Inr filters \<Rightarrow> tags_filtered ts filters))))))"

definition op_date_suffix :: string where
  "op_date_suffix = '': {op}@'' @ ''{action_date}''"

text \<open>The loop of the third rule, with the flag \<^verbatim>\<open>success\<close>.\<close>

fun messages_ok :: "yval list \<Rightarrow> bool \<Rightarrow> bool result" where
  "messages_ok [] success = Inr success"
| "messages_ok (a # actions) success =
     (case a of
        YDict d \<Rightarrow>
          if \<not> py_eq (case map_of d ''type'' of Some t \<Rightarrow> t | None \<Rightarrow> YStr [])
                 (YStr ''mark-for-op'')
          then messages_ok actions success
          else (case map_of d ''message'' of
                  None \<Rightarrow> messages_ok actions success
                | Some (YStr m) \<Rightarrow>
                    messages_ok actions (if suffix op_date_suffix m then success else False)
                | Some _ \<Rightarrow> Inl AttributeError)
      | _ \<Rightarrow> messages_ok actions success)"

definition check_policy_mark_for_op_bad_message :: "yval \<Rightarrow> bool result" where
  "check_policy_mark_for_op_bad_message policy =
     (case py_has_key policy ''actions'' of
        Inl e \<Rightarrow> Inl e
      | Inr False \<Rightarrow> Inr True
      | Inr True \<Rightarrow>
          (case py_getitem policy ''actions'' of
             Inl e \<Rightarrow> Inl e
           | Inr actions \<Rightarrow>
               (case py_iter actions of
                  Inl e \<Rightarrow> Inl e
                | Inr acts \<Rightarrow> messages_ok acts True)))"

subsection \<open>\<^verbatim>\<open>strip_doc\<close>\<close>

definition is_space :: "char \<Rightarrow> bool" where
  "is_space c \<longleftrightarrow>
     c \<in> set [CHR 0x09, CHR 0x0A, CHR 0x0B, CHR 0x0C, CHR 0x0D,
              CHR 0x1C, CHR 0x1D, CHR 0x1E, CHR 0x1F, CHR 0x20]"

definition strip :: "string \<Rightarrow> string" where
  "strip s = rev (dropWhile is_space (rev (dropWhile is_space s)))"

text \<open>\<^verbatim>\<open>whtspc_re.sub(' ', d)\<close>: every maximal run of white space becomes one space.\<close>

fun collapse :: "string \<Rightarrow> string" where
  "collapse [] = []"
| "collapse [c] = (if is_space c then '' '' else [c])"
| "collapse (c # c' # cs) =
     (if is_space c then (if is_space c' then collapse (c' # cs) else CHR 0x20 # collapse (c' # cs))
      else c # collapse (c' # cs))"

definition strip_doc :: "string \<Rightarrow> string" where
  "strip_doc doc = collapse (strip (map (\<lambda>c. if c = CHR 0x0A then CHR 0x20 else c) doc))"

subsection \<open>\<^verbatim>\<open>_check_policies\<close>\<close>

text \<open>
  A rule is a method with its docstring. The methods named \<^verbatim>\<open>_check_policy_*\<close> are
  found with \<^verbatim>\<open>dir(self)\<close>, which lists them in alphabetical order.
\<close>

type_synonym policy_check = "(yval \<Rightarrow> bool result) \<times> string"

definition policy_checks :: "policy_check list" where
  "policy_checks =
     [(check_policy_mark_but_no_tag_filter,
       [CHR 0x0A] @ ''        Policy performs a mark action, but does not filter out resources already''
       @ [CHR 0x0A] @ ''        marked with that tag.'' @ [CHR 0x0A] @ ''        ''),
      (check_policy_mark_for_op_bad_message,
       [CHR 0x0A] @ ''        mark-for-op action has message that does not end with''
       @ [CHR 0x0A] @ ''        '' @ [CHR 0x22] @ op_date_suffix @ [CHR 0x22]
       @ '' (won'' @ [CHR 0x27] @ ''t be parsed by c7n and will be ignored)''
       @ [CHR 0x0A] @ ''        ''),
      (check_policy_marked_for_op_first,
       [CHR 0x0A] @ ''        Policy includes a marked-for-op filter, but it is not the first filter.''
       @ [CHR 0x0A] @ ''        '')]"

text \<open>
  \<^verbatim>\<open>failures\<close>, a \<^verbatim>\<open>defaultdict(list)\<close> keyed by policy name. Policy names are
  strings (the loader compares them with the file name); other scalars as names are outside
  the model.
\<close>

type_synonym failures = "(string \<times> string list) list"

definition add_failure :: "failures \<Rightarrow> string \<Rightarrow> string \<Rightarrow> failures" where
  "add_failure failures name desc =
     AList.update name ((case map_of failures name of Some l \<Rightarrow> l | None \<Rightarrow> []) @ [desc]) failures"

fun run_checks :: "policy_check list \<Rightarrow> yval \<Rightarrow> failures \<Rightarrow> failures result" where
  "run_checks [] pol failures = Inr failures"
| "run_checks (chk # rest) pol failures =
     (case fst chk pol of
        Inl e \<Rightarrow> Inl e
      | Inr True \<Rightarrow> run_checks rest pol failures
      | Inr False \<Rightarrow>
          (case py_getitem pol ''name'' of
             Inl e \<Rightarrow> Inl e
           | Inr name \<Rightarrow>
               (case name of
                  YStr n \<Rightarrow> run_checks rest pol (add_failure failures n (strip_doc (snd chk)))
                | YList _ \<Rightarrow> Inl TypeError
                | YDict _ \<Rightarrow> Inl TypeError
                | _ \<Rightarrow> Inl Unsupported)))"

fun collect_failures :: "policy_check list \<Rightarrow> yval list \<Rightarrow> failures \<Rightarrow> failures result" where
  "collect_failures checks [] failures = Inr failures"
| "collect_failures checks (pol # policies) failures =
     (case run_checks checks pol failures of
        Inl e \<Rightarrow> Inl e
      | Inr failures' \<Rightarrow> collect_failures checks policies failures')"

text \<open>The lines given to \<^verbatim>\<open>logger.error\<close> before \<^verbatim>\<open>SystemExit(1)\<close>.\<close>

definition failure_log :: "failures \<Rightarrow> string list" where
  "failure_log failures =
     ''ERROR: Some policies failed sanity/safety checks:''
     # concat (map (\<lambda>pol_name.
          pol_name # map (\<lambda>chk_str. CHR 0x09 # chk_str)
            (case map_of failures pol_name of Some l \<Rightarrow> l | None \<Rightarrow> []))
        (sort (keys failures)))"

text \<open>The error log and the outcome of \<^verbatim>\<open>_check_policies\<close>.\<close>

definition check_policies :: "policy_check list \<Rightarrow> yval list \<Rightarrow> string list \<times> unit result" where
  "check_policies checks policies =
     (case collect_failures checks policies [] of
        Inl e \<Rightarrow> ([], Inl e)
      | Inr failures \<Rightarrow>
          if length failures > 0 then (failure_log failures, Inl SystemExit)
          else ([], Inr ()))"

section \<open>CleanupPolicySynthesizer\<close>

definition ne_filter :: "string \<Rightarrow> string \<Rightarrow> yval" where
  "ne_filter key val =
     YDict [(''type'', YStr ''value''), (''key'', YStr key), (''op'', YStr ''ne''),
            (''value'', YStr val)]"

definition lcleanup :: "(string \<times> yval) list" where
  "lcleanup =
     [(''name'', YStr ''c7n-cleanup-lambda''),
      (''comment'', YStr ''Find and alert on orphaned c7n Lambda functions''),
      (''resource'', YStr ''lambda''),
      (''actions'', YList [YDict
         [(''type'', YStr ''notify''),
          (''violation_desc'',
             YStr ''The following cloud-custodian Lambda functions appear to be orphaned''),
          (''action_desc'', YStr ''and should probably be deleted''),
          (''subject'',
             YStr ''[cloud-custodian {{ account }}] Orphaned cloud-custodian Lambda funcs in {{ region }}''),
          (''to'', YList [YStr ''MAN-ReleaseEngineering@manheim.com''])]]),
      (''filters'', YList
         [YDict [(''tag:Project'', YStr ''cloud-custodian'')],
          YDict [(''tag:Component'', YStr ''present'')],
          ne_filter ''tag:Component'' ''c7n-cleanup-lambda'',
          ne_filter ''tag:Component'' ''c7n-cleanup-cwe''])]"

definition cwecleanup :: "(string \<times> yval) list" where
  "cwecleanup =
     [(''name'', YStr ''c7n-cleanup-cwe''),
      (''comment'', YStr ''Find and alert on orphaned c7n CloudWatch Events''),
      (''resource'', YStr ''event-rule''),
      (''actions'', YList [YDict
         [(''type'', YStr ''notify''),
          (''violation_desc'',
             YStr ''The following cloud-custodian CloudWatch Event rules appear to be orphaned''),
          (''action_desc'', YStr ''and should probably be deleted''),
          (''subject'',
             YStr ''[cloud-custodian {{ account }}] Orphaned cloud-custodian CW Event rules in {{ region }}''),
          (''to'', YList [YStr ''MAN-ReleaseEngineering@manheim.com''])]]),
      (''filters'', YList
         [YDict [(''type'', YStr ''value''), (''key'', YStr ''Name''), (''op'', YStr ''glob''),
                 (''value'', YStr ''custodian-*'')],
          ne_filter ''Name'' ''custodian-c7n-cleanup-lambda'',
          ne_filter ''Name'' ''custodian-c7n-cleanup-cwe''])]"

text \<open>\<^verbatim>\<open>name = p['name']\<close> for every policy, in order.\<close>

fun policy_names :: "yval list \<Rightarrow> yval list result" where
  "policy_names [] = Inr []"
| "policy_names (p # policies) =
     (case py_getitem p ''name'' of
        Inl e \<Rightarrow> Inl e
      | Inr name \<Rightarrow>
          (case policy_names policies of
             Inl e \<Rightarrow> Inl e
           | Inr names \<Rightarrow> Inr (name # names)))"

definition append_filters :: "(string \<times> yval) list \<Rightarrow> yval list \<Rightarrow> (string \<times> yval) list" where
  "append_filters pol fs =
     AList.update ''filters''
       (YList ((case map_of pol ''filters'' of Some (YList l) \<Rightarrow> l | _ \<Rightarrow> []) @ fs)) pol"

definition generate_cleanup_policies :: "yval list \<Rightarrow> yval list result" where
  "generate_cleanup_policies policies =
     (case policy_names policies of
        Inl e \<Rightarrow> Inl e
      | Inr names \<Rightarrow>
          Inr [YDict (append_filters lcleanup
                        (map (\<lambda>name. YDict [(''type'', YStr ''value''), (''key'', YStr ''tag:Component''),
                                             (''op'', YStr ''ne''), (''value'', name)]) names)),
               YDict (append_filters cwecleanup
                        (map (\<lambda>name. ne_filter ''Name'' (''custodian-'' @ py_str name)) names))])"

section \<open>ConfigCompiler\<close>

text \<open>\<^verbatim>\<open>for k in ks: result['policies'].append(self._apply_defaults(defaults, policies[k]))\<close>\<close>

fun apply_defaults_keys ::
  "yval option \<Rightarrow> yval \<Rightarrow> (string \<times> yval) list \<Rightarrow> string list \<Rightarrow> yval list result" where
  "apply_defaults_keys always_notify defaults policies [] = Inr []"
| "apply_defaults_keys always_notify defaults policies (k # ks) =
     (case map_of policies k of
        None \<Rightarrow> Inl (KeyError k)
      | Some pol \<Rightarrow>
          (case apply_defaults always_notify defaults pol of
             Inl e \<Rightarrow> Inl e
           | Inr conf \<Rightarrow>
               (case apply_defaults_keys always_notify defaults policies ks of
                  Inl e \<Rightarrow> Inl e
                | Inr confs \<Rightarrow> Inr (conf # confs))))"

fun apply_defaults_all :: "yval option \<Rightarrow> yval \<Rightarrow> yval list \<Rightarrow> yval list result" where
  "apply_defaults_all always_notify defaults [] = Inr []"
| "apply_defaults_all always_notify defaults (pol # pols) =
     (case apply_defaults always_notify defaults pol of
        Inl e \<Rightarrow> Inl e
      | Inr conf \<Rightarrow>
          (case apply_defaults_all always_notify defaults pols of
             Inl e \<Rightarrow> Inl e
           | Inr confs \<Rightarrow> Inr (conf # confs)))"

text \<open>
  \<^verbatim>\<open>_generate_configs\<close> up to the call of \<^verbatim>\<open>_write_custodian_configs\<close>, which gets
  the returned \<^verbatim>\<open>result\<close>. \<open>policies\<close> is the region's mapping from name to policy.
\<close>

definition generate_configs ::
  "yval option \<Rightarrow> policy_check list \<Rightarrow> (string \<times> yval) list \<Rightarrow> yval \<Rightarrow> yval result" where
  "generate_configs always_notify checks policies defaults =
     (case apply_defaults_keys always_notify defaults policies (sort (keys policies)) of
        Inl e \<Rightarrow> Inl e
      | Inr confs \<Rightarrow>
          (case generate_cleanup_policies confs of
             Inl e \<Rightarrow> Inl e
           | Inr cleanup \<Rightarrow>
               (case apply_defaults_all always_notify defaults cleanup of
                  Inl e \<Rightarrow> Inl e
                | Inr cconfs \<Rightarrow>
                    (case snd (check_policies checks (confs @ cconfs)) of
                       Inl e \<Rightarrow> Inl e
                     | Inr _ \<Rightarrow> Inr (YDict [(''policies'', YList (confs @ cconfs))])))))"

section \<open>Auxiliary notions for the statements\<close>

text \<open>The entries of a sequence that are mappings, in order.\<close>

fun dict_entries :: "yval list \<Rightarrow> (string \<times> yval) list list" where
  "dict_entries [] = []"
| "dict_entries (v # vs) =
     (case v of YDict d \<Rightarrow> d # dict_entries vs | _ \<Rightarrow> dict_entries vs)"

text \<open>
  The three shape errors as the error taxonomy words them: the defaults value is not a
  sequence, a mapping entry has no \<^verbatim>\<open>type\<close> field, two mapping entries have the same
  \<^verbatim>\<open>type\<close>.
\<close>

definition listed_shape_error :: "yval \<Rightarrow> bool" where
  "listed_shape_error base =
     (case base of
        YList bs \<Rightarrow>
          list_ex (\<lambda>d. ''type'' \<notin> set (keys d)) (dict_entries bs)
          \<or> \<not> distinct (map (\<lambda>d. map_of d ''type'') (dict_entries bs))
      | _ \<Rightarrow> True)"




text \<open>
  The descriptions a policy earns: the one-line docstring of every rule that returns
  \<^verbatim>\<open>False\<close> on it, in the order of the rules; and the descriptions filed under a name:
  those of all policies of that name, in the order of the policies.
\<close>

definition failed_docs :: "policy_check list \<Rightarrow> yval \<Rightarrow> string list" where
  "failed_docs checks pol =
     map (\<lambda>chk. strip_doc (snd chk)) (filter (\<lambda>chk. fst chk pol = Inr False) checks)"

definition descs_for :: "policy_check list \<Rightarrow> yval list \<Rightarrow> string \<Rightarrow> string list" where
  "descs_for checks policies n =
     concat (map (failed_docs checks)
       (filter (\<lambda>pol. py_getitem pol ''name'' = Inr (YStr n)) policies))"

text \<open>The list filed under a name in \<^verbatim>\<open>failures\<close>, empty when there is none.\<close>

definition lookup_failures :: "failures \<Rightarrow> string \<Rightarrow> string list" where
  "lookup_failures F n = (case map_of F n of Some l \<Rightarrow> l | None \<Rightarrow> [])"

text \<open>
  The names of the policies in the compiled output, in order:
  \<^verbatim>\<open>[p['name'] for p in result['policies']]\<close> for the \<^verbatim>\<open>result\<close> of
  \<^verbatim>\<open>_generate_configs\<close>.
\<close>

definition compiled_names ::
  "yval option \<Rightarrow> policy_check list \<Rightarrow> (string \<times> yval) list \<Rightarrow> yval \<Rightarrow> yval list result" where
  "compiled_names always_notify checks policies defaults =
     (case generate_configs always_notify checks policies defaults of
        Inl e \<Rightarrow> Inl e
      | Inr result \<Rightarrow>
          (case py_getitem result ''policies'' of
             Inl e \<Rightarrow> Inl e
           | Inr ps \<Rightarrow>
               (case py_iter ps of
                  Inl e \<Rightarrow> Inl e
                | Inr l \<Rightarrow> policy_names l)))"

section \<open>Basic facts\<close>

lemma py_eq_YStr [simp]: "py_eq x (YStr s) \<longleftrightarrow> x = YStr s"
  by (cases x) auto








lemma merge_items_step:
  assumes "merge_items (YDict b) (kv # rest) path = Inr r"
  shows "\<exists>x. merge_items (YDict (AList.update (fst kv) x b)) rest path = Inr r"
  using assms
  by (simp add: py_setitem_def split: sum.splits bool.splits yval.splits) blast+

section \<open>Array merge: when it raises\<close>

lemma dict_entries_append: "dict_entries (xs @ ys) = dict_entries xs @ dict_entries ys"
  by (induction xs) (auto split: yval.splits)

lemma set_dict_entries: "set (dict_entries vs) = {d. YDict d \<in> set vs}"
  by (induction vs) (auto split: yval.splits)

lemma find_defaults_raises:
  "distinct (map fst dd) \<Longrightarrow>
   (\<exists>e. find_defaults bs u dd = Inl e) \<longleftrightarrow>
     (\<exists>d. YDict d \<in> set bs \<and> (type_of d = YNone \<or> \<not> hashable (type_of d)))
     \<or> \<not> distinct (map fst dd @ map (\<lambda>d. norm_key (type_of d)) (dict_entries bs))"
proof (induction bs arbitrary: u dd)
  case Nil
  then show ?case by simp
next
  case (Cons v bs)
  show ?case
  proof (cases v)
    case (YDict d)
    show ?thesis
    proof (cases "type_of d = YNone \<or> \<not> hashable (type_of d)")
      case True
      then show ?thesis using YDict by (auto simp: Let_def)
    next
      case good: False
      show ?thesis
      proof (cases "norm_key (type_of d) \<in> set (map fst dd)")
        case True
        then show ?thesis using YDict good by (auto simp: Let_def)
      next
        case False
        then have dist: "distinct (map fst (dd @ [(norm_key (type_of d), d)]))"
          using Cons.prems by simp
        show ?thesis
          using YDict good False Cons.IH[OF dist, of u] by (auto simp: Let_def)
      qed
    qed
  qed (use Cons in \<open>auto\<close>)
qed

lemma find_defaults_dict_entries:
  "find_defaults bs u dd = Inr (u', dd') \<Longrightarrow> dict_entries u' = dict_entries u"
proof (induction bs arbitrary: u dd)
  case Nil
  then show ?case by simp
next
  case (Cons v bs)
  then show ?case
    by (cases v) (auto simp: Let_def dict_entries_append split: if_splits)
qed

lemma do_update_raises:
  "(\<exists>e. do_update i dd = Inl e) \<longleftrightarrow> (\<exists>d. i = YDict d \<and> \<not> hashable (type_of d))"
  by (cases i) (auto simp: do_update_def Let_def split: option.splits)

lemma do_updates_raises:
  "(\<exists>e. do_updates us dd = Inl e) \<longleftrightarrow> (\<exists>d. YDict d \<in> set us \<and> \<not> hashable (type_of d))"
proof (induction us arbitrary: dd)
  case Nil
  then show ?case by simp
next
  case (Cons i us)
  show ?case
  proof (cases "do_update i dd")
    case (Inl e)
    then show ?thesis using do_update_raises[of i dd] by auto
  next
    case (Inr p)
    obtain i' dd' where p: "p = (i', dd')" by (cases p)
    have ni: "\<not> (\<exists>d. i = YDict d \<and> \<not> hashable (type_of d))"
      using do_update_raises[of i dd] Inr by auto
    show ?thesis using Inr p ni Cons.IH[of dd'] by (auto split: sum.splits)
  qed
qed

text \<open>
  Claim C8, as the code has it. \<^verbatim>\<open>_array_merge\<close> raises if and only if the base value
  is not a sequence, or some mapping entry of the base sequence has no \<^verbatim>\<open>type\<close> (absent
  or null) or a \<^verbatim>\<open>type\<close> that is itself a sequence or mapping (unhashable), or two
  mapping entries of the base sequence have the same \<^verbatim>\<open>type\<close>, or some mapping entry
  of the update sequence has a \<^verbatim>\<open>type\<close> that is a sequence or mapping. In every other
  case it returns.
\<close>

theorem array_merge_raises_iff:
  "(\<exists>e. array_merge base update path = Inl e) \<longleftrightarrow>
     (case base of
        YList bs \<Rightarrow>
          (\<exists>d. YDict d \<in> set bs \<and> (type_of d = YNone \<or> \<not> hashable (type_of d)))
          \<or> \<not> distinct (map (\<lambda>d. norm_key (type_of d)) (dict_entries bs))
          \<or> (\<exists>d. YDict d \<in> set update \<and> \<not> hashable (type_of d))
      | _ \<Rightarrow> True)"
proof (cases base)
  case (YList bs)
  show ?thesis
  proof (cases "find_defaults bs update []")
    case (Inl e)
    then show ?thesis using YList find_defaults_raises[of "[]" bs update]
      by (auto simp: array_merge_def)
  next
    case (Inr p)
    obtain u1 dd where p: "p = (u1, dd)" by (cases p)
    have de: "dict_entries u1 = dict_entries update"
      using find_defaults_dict_entries Inr p by blast
    then have "{d. YDict d \<in> set u1} = {d. YDict d \<in> set update}"
      using set_dict_entries by metis
    then have eq: "(\<exists>d. YDict d \<in> set u1 \<and> \<not> hashable (type_of d))
        \<longleftrightarrow> (\<exists>d. YDict d \<in> set update \<and> \<not> hashable (type_of d))" by blast
    have nf: "\<not> ((\<exists>d. YDict d \<in> set bs \<and> (type_of d = YNone \<or> \<not> hashable (type_of d)))
          \<or> \<not> distinct (map (\<lambda>d. norm_key (type_of d)) (dict_entries bs)))"
      using find_defaults_raises[of "[]" bs update] Inr by auto
    show ?thesis using YList Inr p nf eq do_updates_raises[of u1 dd]
      by (auto simp: array_merge_def split: sum.splits)
  qed
qed (auto simp: array_merge_def)

theorem array_merge_raises_iff_witness:
  "(\<exists>e. array_merge (YList [YDict [(''type'', YStr ''a'')], YDict [(''type'', YStr ''a'')]])
          [] [''filters''] = Inl e)
   \<and> \<not> (\<exists>e. array_merge (YList [YDict [(''type'', YStr ''a'')], YStr ''b''])
          [YDict [(''type'', YStr ''c'')]] [''filters''] = Inl e)"
  using array_merge_raises_iff [of "YList [YDict [(''type'', YStr ''a'')], YDict [(''type'', YStr ''a'')]]"
      "[]" "[''filters'']"]
    array_merge_raises_iff [of "YList [YDict [(''type'', YStr ''a'')], YStr ''b'']"
      "[YDict [(''type'', YStr ''c'')]]" "[''filters'']"]
  by (simp add: type_of_def)

text \<open>
  Claim C8 as stated fails: a default entry whose \<^verbatim>\<open>type\<close> is a sequence makes
  \<^verbatim>\<open>t in def_dicts\<close> raise \<^verbatim>\<open>TypeError\<close>, although the base value is a sequence, its
  only mapping entry has a \<^verbatim>\<open>type\<close> field and no two entries share a type.
\<close>

theorem array_merge_unhashable_type_counterexample:
  "array_merge (YList [YDict [(''type'', YList [])]]) [] [''filters''] = Inl TypeError
   \<and> \<not> listed_shape_error (YList [YDict [(''type'', YList [])]])"
  by (simp add: array_merge_def type_of_def listed_shape_error_def keys_def)

section \<open>Merge: the top-level actions key\<close>

lemma merge_items_keys:
  "merge_items (YDict b) upd path = Inr r \<Longrightarrow>
   \<exists>b'. r = YDict b' \<and> set (keys b') = set (keys b) \<union> set (keys upd)"
proof (induction upd arbitrary: b)
  case Nil
  then show ?case by (auto simp: keys_def)
next
  case (Cons kv rest)
  from merge_items_step[OF Cons.prems] obtain x
    where "merge_items (YDict (AList.update (fst kv) x b)) rest path = Inr r" by blast
  from Cons.IH[OF this] obtain b' where "r = YDict b'"
    "set (keys b') = set (keys (AList.update (fst kv) x b)) \<union> set (keys rest)" by blast
  then show ?case using dom_update[of "fst kv" x b] by (auto simp: keys_def)
qed

text \<open>
  Claim C7. When the defaults declare an \<^verbatim>\<open>actions\<close> sequence and the merge returns,
  the result is a mapping that has an \<^verbatim>\<open>actions\<close> key exactly when the merge is not at
  the top level or the policy has an \<^verbatim>\<open>actions\<close> key of its own: a policy without the
  key loses the defaults' actions at the top level only, and a policy whose
  \<^verbatim>\<open>actions\<close> is present (also when empty) keeps the key.
\<close>

theorem merge_conf_actions_dropped_iff:
  assumes "merge_conf (YDict b) upd path = Inr r"
    and "map_of b ''actions'' = Some (YList acts)"
  shows "\<exists>r'. r = YDict r' \<and>
           (''actions'' \<in> set (keys r') \<longleftrightarrow> path \<noteq> [] \<or> ''actions'' \<in> set (keys upd))"
proof -
  from assms(1) obtain m where m: "merge_items (YDict b) upd path = Inr m"
    by (auto split: sum.splits)
  from merge_items_keys[OF m] obtain b' where b': "m = YDict b'"
    "set (keys b') = set (keys b) \<union> set (keys upd)" by blast
  have inb: "''actions'' \<in> set (keys b)"
    using assms(2) by (metis keys_def map_of_eq_None_iff option.distinct(1) set_map)
  then have inb': "''actions'' \<in> set (keys b')" using b' by simp
  show ?thesis
  proof (cases "path = [] \<and> ''actions'' \<notin> set (keys upd)")
    case True
    then have "r = YDict (AList.delete ''actions'' b')"
      using assms(1) m b' inb' by (simp add: py_has_key_def py_delitem_def)
    then show ?thesis using True delete_notin_dom[of "''actions''" b'] by (simp add: keys_def)
  next
    case False
    then have "r = YDict b'"
      using assms(1) m b' by (auto simp: py_has_key_def split: if_splits)
    then show ?thesis using False inb' by auto
  qed
qed

theorem merge_conf_actions_dropped_iff_witness:
  "merge_conf (YDict [(''actions'', YList [YDict [(''type'', YStr ''notify'')]])])
     [(''name'', YStr ''p'')] [] = Inr (YDict [(''name'', YStr ''p'')])
   \<and> merge_conf (YDict [(''actions'', YList [YDict [(''type'', YStr ''notify'')]])])
     [(''actions'', YList [])] [] = Inr (YDict [(''actions'', YList [])])
   \<and> merge_conf (YDict [(''actions'', YList [YDict [(''type'', YStr ''notify'')]])])
     [(''name'', YStr ''p'')] [''mode'']
       = Inr (YDict [(''actions'', YList [YDict [(''type'', YStr ''notify'')]]), (''name'', YStr ''p'')])"
proof -
  let ?b = "[(''actions'', YList [YDict [(''type'', YStr ''notify'')]])]"
  have m: "map_of ?b ''actions'' = Some (YList [YDict [(''type'', YStr ''notify'')]])"
    by simp
  have a: "merge_conf (YDict ?b) [(''name'', YStr ''p'')] [] = Inr (YDict [(''name'', YStr ''p'')])"
    by code_simp
  have b: "merge_conf (YDict ?b) [(''actions'', YList [])] [] = Inr (YDict [(''actions'', YList [])])"
    by code_simp
  have c: "merge_conf (YDict ?b) [(''name'', YStr ''p'')] [''mode'']
       = Inr (YDict [(''actions'', YList [YDict [(''type'', YStr ''notify'')]]), (''name'', YStr ''p'')])"
    by code_simp
  show ?thesis
    using a b c merge_conf_actions_dropped_iff [OF a m] merge_conf_actions_dropped_iff [OF b m]
      merge_conf_actions_dropped_iff [OF c m]
    by simp
qed

section \<open>The rule mark-but-no-tag-filter\<close>

lemma mark_tags_KeyError:
  assumes "YDict a \<in> set acts" "map_of a ''type'' = Some (YStr ''mark-for-op'')"
    "''tag'' \<notin> set (keys a)"
  shows "mark_tags acts = Inl (KeyError ''tag'')"
  using assms
proof (induction acts)
  case Nil
  then show ?case by simp
next
  case (Cons x acts)
  have notag: "map_of a ''tag'' = None"
    using Cons.prems(3) by (simp add: keys_def map_of_eq_None_iff)
  show ?case
  proof (cases "x = YDict a")
    case True
    then show ?thesis using Cons.prems(2) notag by simp
  next
    case False
    then have "mark_tags acts = Inl (KeyError ''tag'')" using Cons by auto
    then show ?thesis by (cases x) (auto split: option.splits)
  qed
qed

text \<open>
  Claim C10. A policy with a \<^verbatim>\<open>filters\<close> key whose \<^verbatim>\<open>actions\<close> list holds a mapping
  of type \<^verbatim>\<open>mark-for-op\<close> without a \<^verbatim>\<open>tag\<close> field gets no verdict from the rule: the
  unguarded \<^verbatim>\<open>a['tag']\<close> raises \<^verbatim>\<open>KeyError\<close>.
\<close>

theorem mark_without_tag_raises:
  assumes "''filters'' \<in> set (keys p)"
    and "map_of p ''actions'' = Some (YList acts)"
    and "YDict a \<in> set acts"
    and "map_of a ''type'' = Some (YStr ''mark-for-op'')"
    and "''tag'' \<notin> set (keys a)"
  shows "check_policy_mark_but_no_tag_filter (YDict p) = Inl (KeyError ''tag'')"
proof -
  have "''actions'' \<in> set (keys p)"
    using assms(2) by (metis keys_def map_of_eq_None_iff option.distinct(1) set_map)
  then show ?thesis
    using assms(1,2) mark_tags_KeyError[OF assms(3,4,5)]
    by (simp add: check_policy_mark_but_no_tag_filter_def py_has_key_def py_getitem_def py_iter_def)
qed

theorem mark_without_tag_raises_witness:
  "check_policy_mark_but_no_tag_filter
     (YDict [(''name'', YStr ''p''), (''filters'', YList []),
             (''actions'', YList [YDict [(''type'', YStr ''mark-for-op'')]])])
   = Inl (KeyError ''tag'')"
  using mark_without_tag_raises [of "[(''name'', YStr ''p''), (''filters'', YList []),
             (''actions'', YList [YDict [(''type'', YStr ''mark-for-op'')]])]"
      "[YDict [(''type'', YStr ''mark-for-op'')]]" "[(''type'', YStr ''mark-for-op'')]"]
  by (simp add: keys_def)

lemma py_eq_single:
  "py_eq f (YDict [(k, YStr s)]) \<longleftrightarrow> f = YDict [(k, YStr s)]"
proof (cases f)
  case (YDict d)
  show ?thesis
  proof (cases d)
    case Nil
    then show ?thesis using YDict by simp
  next
    case (Cons kv d')
    then show ?thesis using YDict by (cases kv; cases d') (auto split: if_splits)
  qed
qed auto

lemma py_in_tag_filter: "py_in (tag_filter t) fs \<longleftrightarrow> tag_filter t \<in> set fs"
  by (auto simp: py_in_def tag_filter_def py_eq_single list_ex_iff)

lemma mark_tags_set:
  assumes "\<forall>d. YDict d \<in> set acts \<and> map_of d ''type'' = Some (YStr ''mark-for-op'')
             \<longrightarrow> ''tag'' \<in> set (keys d)"
  shows "\<exists>ts. mark_tags acts = Inr ts \<and>
           set ts = {t. \<exists>d. YDict d \<in> set acts \<and> map_of d ''type'' = Some (YStr ''mark-for-op'')
                        \<and> map_of d ''tag'' = Some t}"
  using assms
proof (induction acts)
  case Nil
  then show ?case by simp
next
  case (Cons x acts)
  then obtain ts where ts: "mark_tags acts = Inr ts"
    "set ts = {t. \<exists>d. YDict d \<in> set acts \<and> map_of d ''type'' = Some (YStr ''mark-for-op'')
                        \<and> map_of d ''tag'' = Some t}" by auto
  show ?case
  proof (cases x)
    case (YDict d)
    show ?thesis
    proof (cases "map_of d ''type'' = Some (YStr ''mark-for-op'')")
      case True
      then have "''tag'' \<in> set (keys d)" using Cons.prems YDict by auto
      then obtain t where t: "map_of d ''tag'' = Some t"
        by (metis keys_def map_of_eq_None_iff not_Some_eq set_map)
      have "mark_tags (x # acts) = Inr (t # ts)" using YDict True t ts by simp
      moreover have "set (t # ts) = {t. \<exists>d. YDict d \<in> set (x # acts) \<and> map_of d ''type'' = Some (YStr ''mark-for-op'')
                        \<and> map_of d ''tag'' = Some t}"
        using ts(2) YDict True t by auto
      ultimately show ?thesis by blast
    next
      case False
      then have "mark_tags (x # acts) = Inr ts" using YDict ts
        by (auto split: option.splits)
      moreover have "set ts = {t. \<exists>d. YDict d \<in> set (x # acts) \<and> map_of d ''type'' = Some (YStr ''mark-for-op'')
                        \<and> map_of d ''tag'' = Some t}"
        using ts(2) YDict False by auto
      ultimately show ?thesis by blast
    qed
  qed (use ts in auto)
qed

lemma tags_filtered_list:
  "tags_filtered ts (YList fs) = Inr (\<forall>t\<in>set ts. tag_filter t \<in> set fs)"
  by (induction ts) (auto simp: dict_in_def py_in_tag_filter split: bool.splits)

text \<open>
  Claim C6, as the code has it. A policy without a \<^verbatim>\<open>filters\<close> key passes the rule,
  whatever its actions. For a policy whose \<^verbatim>\<open>filters\<close> and \<^verbatim>\<open>actions\<close> are
  sequences and whose \<^verbatim>\<open>mark-for-op\<close> actions all have a \<^verbatim>\<open>tag\<close>, the rule passes
  if and only if for every \<^verbatim>\<open>mark-for-op\<close> action with tag \<open>t\<close> the filters contain the
  mapping \<^verbatim>\<open>{'tag:t': 'absent'}\<close>; so it passes when there is no \<^verbatim>\<open>mark-for-op\<close>
  action.
\<close>

theorem mark_but_no_tag_filter_verdict:
  "(''filters'' \<notin> set (keys p) \<longrightarrow> check_policy_mark_but_no_tag_filter (YDict p) = Inr True)
   \<and> (map_of p ''filters'' = Some (YList fs) \<and> map_of p ''actions'' = Some (YList acts)
       \<and> (\<forall>d. YDict d \<in> set acts \<and> map_of d ''type'' = Some (YStr ''mark-for-op'')
              \<longrightarrow> ''tag'' \<in> set (keys d))
      \<longrightarrow> check_policy_mark_but_no_tag_filter (YDict p)
            = Inr (\<forall>d t. YDict d \<in> set acts \<and> map_of d ''type'' = Some (YStr ''mark-for-op'')
                         \<and> map_of d ''tag'' = Some t
                     \<longrightarrow> tag_filter t \<in> set fs))"
proof (intro conjI impI)
  assume "''filters'' \<notin> set (keys p)"
  then show "check_policy_mark_but_no_tag_filter (YDict p) = Inr True"
    by (simp add: check_policy_mark_but_no_tag_filter_def py_has_key_def)
next
  assume a: "map_of p ''filters'' = Some (YList fs) \<and> map_of p ''actions'' = Some (YList acts)
       \<and> (\<forall>d. YDict d \<in> set acts \<and> map_of d ''type'' = Some (YStr ''mark-for-op'')
              \<longrightarrow> ''tag'' \<in> set (keys d))"
  then have k: "''filters'' \<in> set (keys p)" "''actions'' \<in> set (keys p)"
    by (metis keys_def map_of_eq_None_iff option.distinct(1) set_map)+
  from a mark_tags_set[of acts] obtain ts where ts: "mark_tags acts = Inr ts"
    "set ts = {t. \<exists>d. YDict d \<in> set acts \<and> map_of d ''type'' = Some (YStr ''mark-for-op'')
                        \<and> map_of d ''tag'' = Some t}" by blast
  have "check_policy_mark_but_no_tag_filter (YDict p) = Inr (\<forall>t\<in>set ts. tag_filter t \<in> set fs)"
    using a k ts(1)
    by (auto simp: check_policy_mark_but_no_tag_filter_def py_has_key_def py_getitem_def
        py_iter_def tags_filtered_list)
  then show "check_policy_mark_but_no_tag_filter (YDict p)
            = Inr (\<forall>d t. YDict d \<in> set acts \<and> map_of d ''type'' = Some (YStr ''mark-for-op'')
                         \<and> map_of d ''tag'' = Some t
                     \<longrightarrow> tag_filter t \<in> set fs)"
    using ts(2) by auto
qed

theorem mark_but_no_tag_filter_verdict_witness:
  "check_policy_mark_but_no_tag_filter
     (YDict [(''name'', YStr ''p''),
             (''filters'', YList [YDict [(''tag:expiry'', YStr ''absent'')]]),
             (''actions'', YList [YDict [(''type'', YStr ''mark-for-op''), (''tag'', YStr ''expiry'')]])])
     = Inr True
   \<and> check_policy_mark_but_no_tag_filter
     (YDict [(''name'', YStr ''p''),
             (''filters'', YList [YDict [(''tag:other'', YStr ''absent'')]]),
             (''actions'', YList [YDict [(''type'', YStr ''mark-for-op''), (''tag'', YStr ''expiry'')]])])
     = Inr False
   \<and> check_policy_mark_but_no_tag_filter
     (YDict [(''name'', YStr ''p''),
             (''actions'', YList [YDict [(''type'', YStr ''mark-for-op''), (''tag'', YStr ''expiry'')]])])
     = Inr True"
  using mark_but_no_tag_filter_verdict
      [of "[(''name'', YStr ''p''),
             (''filters'', YList [YDict [(''tag:expiry'', YStr ''absent'')]]),
             (''actions'', YList [YDict [(''type'', YStr ''mark-for-op''), (''tag'', YStr ''expiry'')]])]"
          "[YDict [(''tag:expiry'', YStr ''absent'')]]"
          "[YDict [(''type'', YStr ''mark-for-op''), (''tag'', YStr ''expiry'')]]"]
    mark_but_no_tag_filter_verdict
      [of "[(''name'', YStr ''p''),
             (''filters'', YList [YDict [(''tag:other'', YStr ''absent'')]]),
             (''actions'', YList [YDict [(''type'', YStr ''mark-for-op''), (''tag'', YStr ''expiry'')]])]"
          "[YDict [(''tag:other'', YStr ''absent'')]]"
          "[YDict [(''type'', YStr ''mark-for-op''), (''tag'', YStr ''expiry'')]]"]
    mark_but_no_tag_filter_verdict
      [of "[(''name'', YStr ''p''),
             (''actions'', YList [YDict [(''type'', YStr ''mark-for-op''), (''tag'', YStr ''expiry'')]])]"]
  by (simp add: keys_def tag_filter_def py_str_def)

text \<open>
  Claim C6 as stated fails: the guard \<^verbatim>\<open>if 'filters' not in policy: return True\<close> lets a
  policy with a \<^verbatim>\<open>mark-for-op\<close> action and no filters at all pass.
\<close>

theorem mark_without_filters_counterexample:
  "check_policy_mark_but_no_tag_filter
     (YDict [(''name'', YStr ''p''),
             (''actions'', YList [YDict [(''type'', YStr ''mark-for-op''), (''tag'', YStr ''expiry'')]])])
     = Inr True
   \<and> py_has_key (YDict [(''name'', YStr ''p''),
             (''actions'', YList [YDict [(''type'', YStr ''mark-for-op''), (''tag'', YStr ''expiry'')]])])
        ''filters'' = Inr False"
  by code_simp

section \<open>Defaults application: the mode tags\<close>

lemma map_of_dict_update:
  "map_of (dict_update d items) = map_of d ++ map_of (rev items)"
  unfolding dict_update_def
proof (induction items arbitrary: d)
  case Nil
  then show ?case by simp
next
  case (Cons kv items)
  have "map_of (fold (\<lambda>kv. AList.update (fst kv) (snd kv)) (kv # items) d)
      = map_of (AList.update (fst kv) (snd kv) d) ++ map_of (rev items)"
    using Cons.IH by simp
  also have "\<dots> = map_of d ++ map_of (rev (kv # items))"
    by (cases kv) (simp add: update_conv' map_add_upd_left fun_eq_iff map_add_def split: option.splits)
  finally show ?case .
qed

lemma add_always_notify_other_key:
  assumes "add_always_notify an conf = Inr conf'" "k \<noteq> ''actions''"
  shows "py_getitem conf' k = py_getitem conf k"
proof (cases an)
  case None
  then show ?thesis using assms by (simp add: add_always_notify_def)
next
  case (Some cfg)
  show ?thesis
  proof (cases conf)
    case (YDict c)
    then show ?thesis using assms Some
      by (auto simp: add_always_notify_def py_setitem_def py_getitem_def Let_def update_conv'
          split: yval.splits sum.splits if_splits prod.splits)
  qed (use assms Some in \<open>auto simp: add_always_notify_def py_getitem_def Let_def split: yval.splits\<close>)
qed

text \<open>
  Claim C1, as the code has it. When \<^verbatim>\<open>_apply_defaults\<close> returns, the policy is a
  mapping with a name, the merge returned, and the merged \<^verbatim>\<open>mode\<close> is a mapping with a
  \<^verbatim>\<open>type\<close>. If that type is not \<^verbatim>\<open>periodic\<close> and the merged mode has no \<^verbatim>\<open>tags\<close>,
  the mode is left as merged. Otherwise (the type is \<^verbatim>\<open>periodic\<close>, or the merged mode
  of any type has \<^verbatim>\<open>tags\<close>) the resulting \<^verbatim>\<open>mode.tags\<close> is the merged tags mapping
  (empty if absent), updated with every entry of \<^verbatim>\<open>defaults.mode.tags\<close>, which
  overwrites a tag of the same key, and then with \<^verbatim>\<open>Component\<close> set to the policy's name.
\<close>

theorem apply_defaults_mode_tags:
  assumes "apply_defaults an defaults policy = Inr conf"
  shows "\<exists>p name m mode ty.
      policy = YDict p \<and> map_of p ''name'' = Some name
      \<and> merge_conf defaults p [] = Inr m
      \<and> py_getitem m ''mode'' = Inr (YDict mode) \<and> map_of mode ''type'' = Some ty
      \<and> (if \<not> py_eq ty (YStr ''periodic'') \<and> ''tags'' \<notin> set (keys mode)
         then py_getitem conf ''mode'' = Inr (YDict mode)
         else \<exists>tags dt items.
                (case map_of mode ''tags'' of None \<Rightarrow> tags = [] | Some t \<Rightarrow> t = YDict tags)
                \<and> default_tags defaults = Inr dt \<and> update_items dt = Inr items
                \<and> py_getitem conf ''mode''
                    = Inr (YDict (AList.update ''tags''
                        (YDict (AList.update ''Component'' name (dict_update tags items))) mode))
                \<and> (\<forall>k. map_of (dict_update tags items) k
                      = (case map_of (rev items) k of Some v \<Rightarrow> Some v | None \<Rightarrow> map_of tags k)))"
proof -
  from assms obtain name where name: "py_getitem policy ''name'' = Inr name"
    by (auto simp: apply_defaults_def split: sum.splits)
  then obtain p where p: "policy = YDict p" "map_of p ''name'' = Some name"
    by (auto simp: py_getitem_def split: yval.splits option.splits)
  from assms name p obtain m where m: "merge_conf defaults p [] = Inr m"
    by (auto simp: apply_defaults_def split: sum.splits)
  from assms name p m obtain mode0 where mode0: "py_getitem m ''mode'' = Inr mode0"
    by (auto simp: apply_defaults_def split: sum.splits)
  from assms name p m mode0 obtain mode1 where mode1: "ensure_tags mode0 = Inr mode1"
    by (auto simp: apply_defaults_def split: sum.splits)
  from assms name p m mode0 mode1 obtain mode2 where mode2: "component_tag defaults name mode1 = Inr mode2"
    by (auto simp: apply_defaults_def split: sum.splits)
  from assms name p m mode0 mode1 mode2 obtain conf1 where conf1: "py_setitem m ''mode'' mode2 = Inr conf1"
    by (auto simp: apply_defaults_def split: sum.splits)
  from assms name p m mode0 mode1 mode2 conf1 obtain conf2 where
    conf2: "conf2 = conf1 \<or> py_setitem conf1 ''actions'' (YList []) = Inr conf2"
    and fin: "add_always_notify an conf2 = Inr conf"
    by (auto simp: apply_defaults_def split: sum.splits if_splits)
  have g1: "py_getitem conf1 ''mode'' = Inr mode2"
    using conf1 by (auto simp: py_setitem_def py_getitem_def update_conv' split: yval.splits)
  have g2: "py_getitem conf2 ''mode'' = Inr mode2"
    using conf2 g1 by (auto simp: py_setitem_def py_getitem_def update_conv' split: yval.splits)
  have g: "py_getitem conf ''mode'' = Inr mode2"
    using add_always_notify_other_key[OF fin, of "''mode''"] g2 by simp
  from mode1 obtain ty where ty: "py_getitem mode0 ''type'' = Inr ty"
    by (auto simp: ensure_tags_def split: sum.splits)
  then obtain mode where mode: "mode0 = YDict mode" "map_of mode ''type'' = Some ty"
    by (auto simp: py_getitem_def split: yval.splits option.splits)
  have in_keys: "''tags'' \<in> set (keys mode) \<longleftrightarrow> map_of mode ''tags'' \<noteq> None"
    by (simp add: keys_def map_of_eq_None_iff)
  show ?thesis
  proof (cases "\<not> py_eq ty (YStr ''periodic'') \<and> ''tags'' \<notin> set (keys mode)")
    case True
    then have "mode1 = YDict mode" using mode1 ty mode by (auto simp: ensure_tags_def)
    then have "mode2 = YDict mode" using mode2 True
      by (auto simp: component_tag_def py_has_key_def)
    then show ?thesis using p m mode0 mode g True by auto
  next
    case False
    have "\<exists>t dt items. (case map_of mode ''tags'' of None \<Rightarrow> t = [] | Some x \<Rightarrow> x = YDict t)
        \<and> default_tags defaults = Inr dt \<and> update_items dt = Inr items
        \<and> mode2 = YDict (AList.update ''tags''
                        (YDict (AList.update ''Component'' name (dict_update t items))) mode)"
    proof (cases "''tags'' \<in> set (keys mode)")
      case True
      then have m1: "mode1 = YDict mode"
        using mode1 ty mode by (auto simp: ensure_tags_def py_has_key_def split: if_splits)
      from True obtain v where v: "map_of mode ''tags'' = Some v"
        using in_keys by auto
      from mode2 m1 True v obtain t where t: "v = YDict t"
        by (auto simp: component_tag_def py_has_key_def py_getitem_def
            split: sum.splits yval.splits)
      from mode2 m1 True v t show ?thesis
        by (auto simp: component_tag_def py_has_key_def py_getitem_def py_setitem_def
            split: sum.splits)
    next
      case nt: False
      then have per: "py_eq ty (YStr ''periodic'')" using False by simp
      have m1: "mode1 = YDict (AList.update ''tags'' (YDict []) mode)"
        using mode1 ty mode nt per by (auto simp: ensure_tags_def py_has_key_def py_setitem_def)
      have none: "map_of mode ''tags'' = None" using nt in_keys by simp
      have k1: "''tags'' \<in> set (keys (AList.update ''tags'' (YDict []) mode))"
        using dom_update[of "''tags''" "YDict []" mode] by (simp add: keys_def)
      from mode2 m1 k1 none show ?thesis
        by (auto simp: component_tag_def py_has_key_def py_getitem_def py_setitem_def update_conv'
            split: sum.splits)
    qed
    then obtain t dt items where tt: "case map_of mode ''tags'' of None \<Rightarrow> t = [] | Some x \<Rightarrow> x = YDict t"
      and dt: "default_tags defaults = Inr dt" "update_items dt = Inr items"
      and m2: "mode2 = YDict (AList.update ''tags''
                        (YDict (AList.update ''Component'' name (dict_update t items))) mode)"
      by blast
    have "\<forall>k. map_of (dict_update t items) k
                      = (case map_of (rev items) k of Some v \<Rightarrow> Some v | None \<Rightarrow> map_of t k)"
      by (simp add: map_of_dict_update map_add_def)
    then show ?thesis using p m mode0 mode g False tt dt m2 by auto
  qed
qed

theorem apply_defaults_mode_tags_witness:
  "apply_defaults None
     (YDict [(''mode'', YDict [(''type'', YStr ''periodic''), (''tags'', YDict [(''Env'', YStr ''prod'')])])])
     (YDict [(''name'', YStr ''p1''), (''mode'', YDict [(''type'', YStr ''periodic'')])])
   = Inr (YDict [(''mode'', YDict [(''type'', YStr ''periodic''),
                    (''tags'', YDict [(''Env'', YStr ''prod''), (''Component'', YStr ''p1'')])]),
                 (''name'', YStr ''p1''), (''actions'', YList [])])"
proof -
  have a: "apply_defaults None
     (YDict [(''mode'', YDict [(''type'', YStr ''periodic''), (''tags'', YDict [(''Env'', YStr ''prod'')])])])
     (YDict [(''name'', YStr ''p1''), (''mode'', YDict [(''type'', YStr ''periodic'')])])
   = Inr (YDict [(''mode'', YDict [(''type'', YStr ''periodic''),
                    (''tags'', YDict [(''Env'', YStr ''prod''), (''Component'', YStr ''p1'')])]),
                 (''name'', YStr ''p1''), (''actions'', YList [])])"
    by code_simp
  show ?thesis using a apply_defaults_mode_tags [OF a] by simp
qed

text \<open>
  Claim C1 as stated fails twice. \<^verbatim>\<open>dict.update\<close> overwrites: the merged tags have
  \<^verbatim>\<open>Env: dev\<close> from the policy, which is not missing, and the result has the defaults'
  \<^verbatim>\<open>Env: prod\<close>. And the adjustment is guarded by \<^verbatim>\<open>'tags' in conf['mode']\<close>, not by
  the type: a \<^verbatim>\<open>cloudtrail\<close> mode with tags gets the defaults' tags and \<^verbatim>\<open>Component\<close>.
\<close>

theorem apply_defaults_tags_counterexample:
  "merge_conf
     (YDict [(''mode'', YDict [(''type'', YStr ''periodic''), (''tags'', YDict [(''Env'', YStr ''prod'')])])])
     [(''name'', YStr ''p1''),
      (''mode'', YDict [(''type'', YStr ''periodic''), (''tags'', YDict [(''Env'', YStr ''dev'')])])] []
   = Inr (YDict [(''mode'', YDict [(''type'', YStr ''periodic''), (''tags'', YDict [(''Env'', YStr ''dev'')])]),
                 (''name'', YStr ''p1'')])
   \<and> apply_defaults None
     (YDict [(''mode'', YDict [(''type'', YStr ''periodic''), (''tags'', YDict [(''Env'', YStr ''prod'')])])])
     (YDict [(''name'', YStr ''p1''),
             (''mode'', YDict [(''type'', YStr ''periodic''), (''tags'', YDict [(''Env'', YStr ''dev'')])])])
   = Inr (YDict [(''mode'', YDict [(''type'', YStr ''periodic''),
                    (''tags'', YDict [(''Env'', YStr ''prod''), (''Component'', YStr ''p1'')])]),
                 (''name'', YStr ''p1''), (''actions'', YList [])])
   \<and> merge_conf
     (YDict [(''mode'', YDict [(''type'', YStr ''periodic''), (''tags'', YDict [(''Env'', YStr ''prod'')])])])
     [(''name'', YStr ''p2''),
      (''mode'', YDict [(''type'', YStr ''cloudtrail''), (''tags'', YDict [])])] []
   = Inr (YDict [(''mode'', YDict [(''type'', YStr ''cloudtrail''), (''tags'', YDict [])]),
                 (''name'', YStr ''p2'')])
   \<and> apply_defaults None
     (YDict [(''mode'', YDict [(''type'', YStr ''periodic''), (''tags'', YDict [(''Env'', YStr ''prod'')])])])
     (YDict [(''name'', YStr ''p2''),
             (''mode'', YDict [(''type'', YStr ''cloudtrail''), (''tags'', YDict [])])])
   = Inr (YDict [(''mode'', YDict [(''type'', YStr ''cloudtrail''),
                    (''tags'', YDict [(''Env'', YStr ''prod''), (''Component'', YStr ''p2'')])]),
                 (''name'', YStr ''p2''), (''actions'', YList [])])"
  by code_simp

section \<open>Mandatory notification\<close>












section \<open>Validation: all failures are reported together\<close>

lemma run_checks_verdicts:
  assumes "\<forall>chk\<in>set checks. \<exists>b. fst chk pol = Inr b"
    and "py_getitem pol ''name'' = Inr (YStr n)"
  shows "run_checks checks pol F =
     Inr (if failed_docs checks pol = [] then F
          else AList.update n (lookup_failures F n @ failed_docs checks pol) F)"
  using assms(1)
proof (induction checks arbitrary: F)
  case Nil
  then show ?case by (simp add: failed_docs_def)
next
  case (Cons chk checks)
  then obtain b where b: "fst chk pol = Inr b" by auto
  have IH: "run_checks checks pol F' =
     Inr (if failed_docs checks pol = [] then F'
          else AList.update n (lookup_failures F' n @ failed_docs checks pol) F')" for F'
    using Cons by simp
  show ?case
  proof (cases b)
    case True
    then show ?thesis using b IH[of F] by (simp add: failed_docs_def)
  next
    case False
    let ?F = "add_failure F n (strip_doc (snd chk))"
    have l: "lookup_failures ?F n = lookup_failures F n @ [strip_doc (snd chk)]"
      by (simp add: add_failure_def lookup_failures_def update_conv')
    have u: "AList.update n x ?F = AList.update n x F" for x
      by (simp add: add_failure_def)
    have f: "failed_docs (chk # checks) pol = strip_doc (snd chk) # failed_docs checks pol"
      using False b by (simp add: failed_docs_def)
    have "run_checks (chk # checks) pol F = run_checks checks pol ?F"
      using False b assms(2) by simp
    then show ?thesis using IH[of ?F] l u f
      by (auto simp: add_failure_def lookup_failures_def)
  qed
qed

lemma collect_failures_verdicts:
  assumes "\<forall>pol\<in>set policies. \<forall>chk\<in>set checks. \<exists>b. fst chk pol = Inr b"
    and "\<forall>pol\<in>set policies. \<exists>n. py_getitem pol ''name'' = Inr (YStr n)"
  shows "\<exists>F'. collect_failures checks policies F = Inr F'
     \<and> (\<forall>n. lookup_failures F' n = lookup_failures F n @ descs_for checks policies n)
     \<and> set (keys F') = set (keys F) \<union> {n. descs_for checks policies n \<noteq> []}"
  using assms
proof (induction policies arbitrary: F)
  case Nil
  then show ?case by (simp add: descs_for_def)
next
  case (Cons pol policies)
  then obtain n where n: "py_getitem pol ''name'' = Inr (YStr n)" by auto
  have v: "\<forall>chk\<in>set checks. \<exists>b. fst chk pol = Inr b" using Cons.prems by simp
  let ?F1 = "if failed_docs checks pol = [] then F
          else AList.update n (lookup_failures F n @ failed_docs checks pol) F"
  have r: "run_checks checks pol F = Inr ?F1" using run_checks_verdicts[OF v n] .
  from Cons.IH[of ?F1] Cons.prems obtain F' where F': "collect_failures checks policies ?F1 = Inr F'"
    "\<forall>m. lookup_failures F' m = lookup_failures ?F1 m @ descs_for checks policies m"
    "set (keys F') = set (keys ?F1) \<union> {m. descs_for checks policies m \<noteq> []}" by auto
  have c: "collect_failures checks (pol # policies) F = Inr F'" using r F'(1) by simp
  have d: "descs_for checks (pol # policies) m
      = (if m = n then failed_docs checks pol else []) @ descs_for checks policies m" for m
    using n by (auto simp: descs_for_def)
  have l1: "lookup_failures ?F1 m = lookup_failures F m @ (if m = n then failed_docs checks pol else [])" for m
    by (auto simp: lookup_failures_def update_conv')
  have k1: "set (keys ?F1) = set (keys F) \<union> (if failed_docs checks pol = [] then {} else {n})"
    using dom_update[of n _ F] by (auto simp: keys_def)
  have "\<forall>m. lookup_failures F' m = lookup_failures F m @ descs_for checks (pol # policies) m"
    using F'(2) l1 d by simp
  moreover have "set (keys F') = set (keys F) \<union> {m. descs_for checks (pol # policies) m \<noteq> []}"
    using F'(3) k1 d by auto
  ultimately show ?case using c by blast
qed

lemma descs_for_nonempty_iff:
  assumes "\<forall>pol\<in>set policies. \<exists>n. py_getitem pol ''name'' = Inr (YStr n)"
  shows "(\<exists>n. descs_for checks policies n \<noteq> [])
     \<longleftrightarrow> (\<exists>pol\<in>set policies. \<exists>chk\<in>set checks. fst chk pol = Inr False)"
proof
  assume "\<exists>n. descs_for checks policies n \<noteq> []"
  then obtain n pol where "pol \<in> set policies" "failed_docs checks pol \<noteq> []"
    by (auto simp: descs_for_def)
  then show "\<exists>pol\<in>set policies. \<exists>chk\<in>set checks. fst chk pol = Inr False"
    by (auto simp: failed_docs_def filter_empty_conv)
next
  assume "\<exists>pol\<in>set policies. \<exists>chk\<in>set checks. fst chk pol = Inr False"
  then obtain pol chk where pc: "pol \<in> set policies" "chk \<in> set checks" "fst chk pol = Inr False"
    by blast
  then obtain n where n: "py_getitem pol ''name'' = Inr (YStr n)" using assms by blast
  have "failed_docs checks pol \<noteq> []" using pc by (auto simp: failed_docs_def filter_empty_conv)
  then have "descs_for checks policies n \<noteq> []" using pc(1) n by (auto simp: descs_for_def)
  then show "\<exists>n. descs_for checks policies n \<noteq> []" by blast
qed

lemma is_space_blank [simp]: "is_space (CHR 0x20)"
  by (simp add: is_space_def)

lemma collapse_only_blanks: "c \<in> set (collapse s) \<Longrightarrow> is_space c \<Longrightarrow> c = CHR 0x20"
proof (induction s rule: collapse.induct)
  case 1
  then show ?case by simp
next
  case (2 x)
  then show ?case by (cases "is_space x") auto
next
  case (3 x y cs)
  show ?case
  proof (cases "is_space x")
    case True
    show ?thesis
    proof (cases "is_space y")
      case True
      then have "collapse (x # y # cs) = collapse (y # cs)" using \<open>is_space x\<close> by simp
      then show ?thesis using 3 True \<open>is_space x\<close> by simp
    next
      case False
      then have "collapse (x # y # cs) = CHR 0x20 # collapse (y # cs)" using True by simp
      then have "c = CHR 0x20 \<or> c \<in> set (collapse (y # cs))" using 3(4) by auto
      then show ?thesis using 3(2)[OF True False] 3(5) by blast
    qed
  next
    case False
    then have "collapse (x # y # cs) = x # collapse (y # cs)" by simp
    then have "c = x \<or> c \<in> set (collapse (y # cs))" using 3(4) by auto
    then show ?thesis using 3(3)[OF False] 3(5) False by blast
  qed
qed

lemma collapse_hd: "\<not> is_space c \<Longrightarrow> \<exists>r. collapse (c # cs) = c # r"
  by (cases cs) auto

lemma collapse_no_double:
  "successively (\<lambda>a b. \<not> (a = CHR 0x20 \<and> b = CHR 0x20)) (collapse s)"
proof (induction s rule: collapse.induct)
  case (3 c c' cs)
  show ?case
  proof (cases "is_space c")
    case True
    show ?thesis
    proof (cases "is_space c'")
      case True
      then show ?thesis using 3 \<open>is_space c\<close> by simp
    next
      case False
      then obtain r where r: "collapse (c' # cs) = c' # r" using collapse_hd by blast
      have "c' \<noteq> CHR 0x20" using False by auto
      then show ?thesis using 3 True False r by (simp add: successively_Cons)
    qed
  next
    case False
    then have "c \<noteq> CHR 0x20" by auto
    then show ?thesis using 3 False by (auto simp: successively_Cons)
  qed
qed simp_all

lemma strip_doc_one_line:
  "(\<forall>c\<in>set (strip_doc doc). is_space c \<longrightarrow> c = CHR 0x20)
   \<and> successively (\<lambda>a b. \<not> (a = CHR 0x20 \<and> b = CHR 0x20)) (strip_doc doc)"
  unfolding strip_doc_def using collapse_only_blanks collapse_no_double by blast

lemma descs_for_one_line:
  assumes "d \<in> set (descs_for checks policies n)"
  shows "(\<forall>c\<in>set d. is_space c \<longrightarrow> c = CHR 0x20)
   \<and> successively (\<lambda>a b. \<not> (a = CHR 0x20 \<and> b = CHR 0x20)) d"
proof -
  from assms obtain doc where "d = strip_doc doc"
    by (auto simp: descs_for_def failed_docs_def)
  then show ?thesis using strip_doc_one_line by blast
qed

text \<open>
  What the aggregation does when no rule raises. Let every rule return a verdict on every
  policy and let every policy have a string as name. Then the loop of
  \<^verbatim>\<open>_check_policies\<close> runs to its end and leaves in \<^verbatim>\<open>failures\<close>, under each policy
  name, the descriptions of the rules that failed on the policies of that name, and no entry
  for a name without a failure; each description has no white space other than single
  blanks. The outcome is \<^verbatim>\<open>SystemExit\<close>, after the failures have been logged, if and
  only if some rule returns \<^verbatim>\<open>False\<close> on some policy; otherwise validation succeeds.
\<close>

lemma check_policies_aggregates:
  assumes "\<forall>pol\<in>set policies. \<forall>chk\<in>set checks. \<exists>b. fst chk pol = Inr b"
    and "\<forall>pol\<in>set policies. \<exists>n. py_getitem pol ''name'' = Inr (YStr n)"
  shows "\<exists>failures. collect_failures checks policies [] = Inr failures
     \<and> (\<forall>n. (case map_of failures n of Some l \<Rightarrow> l | None \<Rightarrow> []) = descs_for checks policies n)
     \<and> (\<forall>n. n \<in> set (keys failures) \<longleftrightarrow> descs_for checks policies n \<noteq> [])
     \<and> (\<forall>n. \<forall>d\<in>set (descs_for checks policies n).
           (\<forall>c\<in>set d. is_space c \<longrightarrow> c = CHR 0x20)
           \<and> successively (\<lambda>a b. \<not> (a = CHR 0x20 \<and> b = CHR 0x20)) d)
     \<and> check_policies checks policies
         = (if \<exists>pol\<in>set policies. \<exists>chk\<in>set checks. fst chk pol = Inr False
            then (failure_log failures, Inl SystemExit) else ([], Inr ()))"
proof -
  from collect_failures_verdicts[OF assms, of "[]"] obtain F where F:
    "collect_failures checks policies [] = Inr F"
    "\<forall>n. lookup_failures F n = descs_for checks policies n"
    "set (keys F) = {n. descs_for checks policies n \<noteq> []}"
    by (auto simp: lookup_failures_def keys_def)
  have "F \<noteq> [] \<longleftrightarrow> (\<exists>n. descs_for checks policies n \<noteq> [])"
    using F(3) by (cases F) (auto simp: keys_def)
  then have e: "F \<noteq> [] \<longleftrightarrow> (\<exists>pol\<in>set policies. \<exists>chk\<in>set checks. fst chk pol = Inr False)"
    using descs_for_nonempty_iff[OF assms(2)] by simp
  have "check_policies checks policies
         = (if \<exists>pol\<in>set policies. \<exists>chk\<in>set checks. fst chk pol = Inr False
            then (failure_log F, Inl SystemExit) else ([], Inr ()))"
    using F(1) e by (auto simp: check_policies_def)
  moreover have "\<forall>n. (case map_of F n of Some l \<Rightarrow> l | None \<Rightarrow> []) = descs_for checks policies n"
    using F(2) by (simp add: lookup_failures_def)
  moreover have "\<forall>n. n \<in> set (keys F) \<longleftrightarrow> descs_for checks policies n \<noteq> []"
    using F(3) by simp
  moreover have "\<forall>n. \<forall>d\<in>set (descs_for checks policies n).
           (\<forall>c\<in>set d. is_space c \<longrightarrow> c = CHR 0x20)
           \<and> successively (\<lambda>a b. \<not> (a = CHR 0x20 \<and> b = CHR 0x20)) d"
    using descs_for_one_line by blast
  ultimately show ?thesis using F(1) by blast
qed

lemma check_policies_aggregates_example:
  "snd (check_policies policy_checks
     [YDict [(''name'', YStr ''a''),
             (''actions'', YList [YDict [(''type'', YStr ''mark-for-op''), (''tag'', YStr ''x''),
                                         (''message'', YStr ''please delete'')]])],
      YDict [(''name'', YStr ''b''), (''actions'', YList [])]])
     = Inl SystemExit
   \<and> snd (check_policies policy_checks [YDict [(''name'', YStr ''b''), (''actions'', YList [])]])
     = Inr ()"
proof -
  let ?a = "YDict [(''name'', YStr ''a''),
             (''actions'', YList [YDict [(''type'', YStr ''mark-for-op''), (''tag'', YStr ''x''),
                                         (''message'', YStr ''please delete'')]])]"
  let ?b = "YDict [(''name'', YStr ''b''), (''actions'', YList [])]"
  have a: "check_policy_mark_but_no_tag_filter ?a = Inr True"
    "check_policy_mark_for_op_bad_message ?a = Inr False"
    "check_policy_marked_for_op_first ?a = Inr True"
    by code_simp+
  have b: "check_policy_mark_but_no_tag_filter ?b = Inr True"
    "check_policy_mark_for_op_bad_message ?b = Inr True"
    "check_policy_marked_for_op_first ?b = Inr True"
    by code_simp+
  have v2: "\<forall>pol\<in>set [?a, ?b]. \<forall>chk\<in>set policy_checks. \<exists>b. fst chk pol = Inr b"
    using a b by (auto simp: policy_checks_def)
  have n2: "\<forall>pol\<in>set [?a, ?b]. \<exists>n. py_getitem pol ''name'' = Inr (YStr n)"
    by (simp add: py_getitem_def)
  have v1: "\<forall>pol\<in>set [?b]. \<forall>chk\<in>set policy_checks. \<exists>b. fst chk pol = Inr b"
    using b by (auto simp: policy_checks_def)
  have n1: "\<forall>pol\<in>set [?b]. \<exists>n. py_getitem pol ''name'' = Inr (YStr n)"
    by (simp add: py_getitem_def)
  have ex2: "\<exists>pol\<in>set [?a, ?b]. \<exists>chk\<in>set policy_checks. fst chk pol = Inr False"
    using a(2) by (auto simp: policy_checks_def)
  have ex1: "\<not> (\<exists>pol\<in>set [?b]. \<exists>chk\<in>set policy_checks. fst chk pol = Inr False)"
    using b by (auto simp: policy_checks_def)
  from check_policies_aggregates [OF v2 n2] obtain F2 where
    "check_policies policy_checks [?a, ?b]
       = (if \<exists>pol\<in>set [?a, ?b]. \<exists>chk\<in>set policy_checks. fst chk pol = Inr False
          then (failure_log F2, Inl SystemExit) else ([], Inr ()))"
    by blast
  then have r2: "snd (check_policies policy_checks [?a, ?b]) = Inl SystemExit"
    using ex2 by (simp only: if_True snd_conv)
  from check_policies_aggregates [OF v1 n1] obtain F1 where
    "check_policies policy_checks [?b]
       = (if \<exists>pol\<in>set [?b]. \<exists>chk\<in>set policy_checks. fst chk pol = Inr False
          then (failure_log F1, Inl SystemExit) else ([], Inr ()))"
    by blast
  then have r1: "snd (check_policies policy_checks [?b]) = Inr ()"
    using ex1 by (simp only: if_False snd_conv)
  show ?thesis using r1 r2 by (rule conjI[rotated])
qed

text \<open>
  Claim C5: the code breaks it. The docstring of \<^verbatim>\<open>_check_policies\<close> has every rule
  return a boolean and \<^verbatim>\<open>SystemExit(1)\<close> raised if any policy failed, and the message
  rule guards its optional key with \<^verbatim>\<open>if 'message' not in a: continue\<close>; the tag rule
  reads \<^verbatim>\<open>a['tag']\<close> unguarded. Here the first policy fails the message rule; on the
  second, the tag rule raises \<^verbatim>\<open>KeyError\<close>, which ends the run with neither the failure
  report nor \<^verbatim>\<open>SystemExit\<close>, and the remaining rules are not run on it. The second
  policy alone aborts the run though no rule has returned \<^verbatim>\<open>False\<close>.
\<close>

theorem check_policies_stops_at_raising_rule:
  "check_policy_mark_for_op_bad_message
     (YDict [(''name'', YStr ''a''),
             (''actions'', YList [YDict [(''type'', YStr ''mark-for-op''), (''tag'', YStr ''x''),
                                         (''message'', YStr ''please delete'')]])])
     = Inr False
   \<and> check_policies policy_checks
     [YDict [(''name'', YStr ''a''),
             (''actions'', YList [YDict [(''type'', YStr ''mark-for-op''), (''tag'', YStr ''x''),
                                         (''message'', YStr ''please delete'')]])],
      YDict [(''name'', YStr ''b''), (''filters'', YList []),
             (''actions'', YList [YDict [(''type'', YStr ''mark-for-op'')]])]]
     = ([], Inl (KeyError ''tag''))
   \<and> check_policies policy_checks
     [YDict [(''name'', YStr ''b''), (''filters'', YList []),
             (''actions'', YList [YDict [(''type'', YStr ''mark-for-op'')]])]]
     = ([], Inl (KeyError ''tag''))"
  by code_simp

section \<open>Compiled output: the order of the policies\<close>

lemma merge_items_base_dict:
  assumes "merge_items base (kv # rest) path = Inr r"
  shows "\<exists>b. base = YDict b"
  using assms
  by (cases base) (auto simp: py_setitem_def py_has_key_def py_getitem_def
      split: sum.splits bool.splits yval.splits)

lemma merge_items_other_key:
  "merge_items (YDict b) upd path = Inr r \<Longrightarrow> k \<notin> set (keys upd) \<Longrightarrow>
   \<exists>b'. r = YDict b' \<and> map_of b' k = map_of b k"
proof (induction upd arbitrary: b)
  case Nil
  then show ?case by auto
next
  case (Cons kv rest)
  from merge_items_step[OF Cons.prems(1)] obtain x
    where x: "merge_items (YDict (AList.update (fst kv) x b)) rest path = Inr r" by blast
  have "k \<notin> set (keys rest)" "fst kv \<noteq> k" using Cons.prems(2) by (auto simp: keys_def)
  with Cons.IH[OF x] show ?case by (auto simp: update_conv')
qed

lemma merge_items_scalar_step:
  assumes "merge_items (YDict b) ((k, YStr n) # rest) path = Inr r" "path @ [k] \<noteq> [''mode'']"
  shows "merge_items (YDict (AList.update k (YStr n) b)) rest path = Inr r"
  using assms
  by (auto simp: mode_short_circuit_def py_setitem_def py_has_key_def split: sum.splits bool.splits)

lemma merge_items_sets_string:
  "merge_items (YDict b) upd path = Inr r \<Longrightarrow> distinct (keys upd) \<Longrightarrow>
   map_of upd k = Some (YStr n) \<Longrightarrow> path @ [k] \<noteq> [''mode''] \<Longrightarrow>
   \<exists>b'. r = YDict b' \<and> map_of b' k = Some (YStr n)"
proof (induction upd arbitrary: b)
  case Nil
  then show ?case by simp
next
  case (Cons kv rest)
  show ?case
  proof (cases "fst kv = k")
    case True
    then have kv: "kv = (k, YStr n)" using Cons.prems(3) by (cases kv) auto
    have nk: "k \<notin> set (keys rest)" using Cons.prems(2) kv by (simp add: keys_def)
    have "merge_items (YDict (AList.update k (YStr n) b)) rest path = Inr r"
      using merge_items_scalar_step Cons.prems(1,4) kv by blast
    from merge_items_other_key[OF this nk] show ?thesis by (simp add: update_conv')
  next
    case False
    from merge_items_step[OF Cons.prems(1)] obtain x
      where x: "merge_items (YDict (AList.update (fst kv) x b)) rest path = Inr r" by blast
    have "distinct (keys rest)" "map_of rest k = Some (YStr n)"
      using Cons.prems(2,3) False by (auto simp: keys_def)
    from Cons.IH[OF x this Cons.prems(4)] show ?thesis .
  qed
qed

lemma merge_conf_name:
  assumes "merge_conf defaults p [] = Inr m" "distinct (keys p)"
    "map_of p ''name'' = Some (YStr n)"
  shows "py_getitem m ''name'' = Inr (YStr n)"
proof -
  from assms(1) obtain m0 where m0: "merge_items defaults p [] = Inr m0"
    by (auto split: sum.splits)
  from assms(3) obtain kv rest where "p = kv # rest" by (cases p) auto
  with m0 obtain b where b: "defaults = YDict b" using merge_items_base_dict by blast
  from merge_items_sets_string[OF m0[unfolded b] assms(2,3)] obtain b' where
    b': "m0 = YDict b'" "map_of b' ''name'' = Some (YStr n)" by auto
  have "m = YDict b' \<or> m = YDict (AList.delete ''actions'' b')"
    using assms(1) m0 b'(1) by (auto simp: py_has_key_def py_delitem_def split: if_splits)
  then show ?thesis using b'(2) by (auto simp: py_getitem_def)
qed

lemma py_setitem_other:
  "py_setitem c k v = Inr c' \<Longrightarrow> k' \<noteq> k \<Longrightarrow> py_getitem c' k' = py_getitem c k'"
  by (auto simp: py_setitem_def py_getitem_def update_conv' split: yval.splits)

lemma apply_defaults_name:
  assumes "apply_defaults an defaults (YDict p) = Inr conf" "distinct (keys p)"
    "map_of p ''name'' = Some (YStr n)"
  shows "py_getitem conf ''name'' = Inr (YStr n)"
proof -
  from assms(1,3) obtain m where m: "merge_conf defaults p [] = Inr m"
    by (auto simp: apply_defaults_def py_getitem_def split: sum.splits)
  from assms(1,3) m obtain mode2 conf1 conf2 where
    c1: "py_setitem m ''mode'' mode2 = Inr conf1"
    and c2: "conf2 = conf1 \<or> py_setitem conf1 ''actions'' (YList []) = Inr conf2"
    and fin: "add_always_notify an conf2 = Inr conf"
    by (auto simp: apply_defaults_def py_getitem_def split: sum.splits if_splits)
  have "py_getitem conf1 ''name'' = Inr (YStr n)"
    using py_setitem_other[OF c1, of "''name''"] merge_conf_name[OF m assms(2,3)] by simp
  then have "py_getitem conf2 ''name'' = Inr (YStr n)"
    using c2 py_setitem_other[of conf1 "''actions''" "YList []" conf2 "''name''"] by auto
  then show ?thesis using add_always_notify_other_key[OF fin, of "''name''"] by simp
qed

lemma apply_defaults_keys_names:
  assumes "apply_defaults_keys an defaults policies ks = Inr confs"
    and "\<forall>k\<in>set ks. \<exists>p. map_of policies k = Some (YDict p) \<and> distinct (keys p)
            \<and> map_of p ''name'' = Some (YStr k)"
  shows "policy_names confs = Inr (map YStr ks)"
  using assms
proof (induction ks arbitrary: confs)
  case Nil
  then show ?case by simp
next
  case (Cons k ks)
  from Cons.prems(2) obtain p where p: "map_of policies k = Some (YDict p)" "distinct (keys p)"
    "map_of p ''name'' = Some (YStr k)" by auto
  from Cons.prems(1) p(1) obtain conf rest where cr: "apply_defaults an defaults (YDict p) = Inr conf"
    "apply_defaults_keys an defaults policies ks = Inr rest" "confs = conf # rest"
    by (auto split: sum.splits)
  have "policy_names rest = Inr (map YStr ks)" using Cons.IH[OF cr(2)] Cons.prems(2) by simp
  then show ?case using apply_defaults_name[OF cr(1) p(2,3)] cr(3) by simp
qed

lemma apply_defaults_all_names:
  assumes "apply_defaults_all an defaults pols = Inr confs"
    and "\<forall>i<length pols. \<exists>p. pols ! i = YDict p \<and> distinct (keys p)
            \<and> map_of p ''name'' = Some (YStr (ns ! i))"
    and "length ns = length pols"
  shows "policy_names confs = Inr (map YStr ns)"
  using assms
proof (induction pols arbitrary: confs ns)
  case Nil
  then show ?case by simp
next
  case (Cons pol pols)
  from Cons.prems(3) obtain n ns' where ns: "ns = n # ns'" "length ns' = length pols"
    by (cases ns) auto
  from Cons.prems(2)[rule_format, of 0] ns obtain p where p: "pol = YDict p" "distinct (keys p)"
    "map_of p ''name'' = Some (YStr n)" by auto
  from Cons.prems(1) p(1) obtain conf rest where cr: "apply_defaults an defaults (YDict p) = Inr conf"
    "apply_defaults_all an defaults pols = Inr rest" "confs = conf # rest"
    by (auto split: sum.splits)
  have "\<forall>i<length pols. \<exists>p. pols ! i = YDict p \<and> distinct (keys p)
            \<and> map_of p ''name'' = Some (YStr (ns' ! i))"
    using Cons.prems(2) ns by (metis Suc_less_eq length_Cons nth_Cons_Suc)
  from Cons.IH[OF cr(2) this ns(2)] have "policy_names rest = Inr (map YStr ns')" .
  then show ?case using apply_defaults_name[OF cr(1) p(2,3)] cr(3) ns by simp
qed

lemma policy_names_append:
  "policy_names xs = Inr a \<Longrightarrow> policy_names ys = Inr b \<Longrightarrow> policy_names (xs @ ys) = Inr (a @ b)"
  by (induction xs arbitrary: a) (auto split: sum.splits)

lemma cleanup_shape:
  assumes "generate_cleanup_policies confs = Inr cl"
  shows "\<exists>l c. cl = [YDict l, YDict c]
     \<and> distinct (keys l) \<and> map_of l ''name'' = Some (YStr ''c7n-cleanup-lambda'')
     \<and> distinct (keys c) \<and> map_of c ''name'' = Some (YStr ''c7n-cleanup-cwe'')"
  using assms
  by (auto simp: generate_cleanup_policies_def append_filters_def lcleanup_def cwecleanup_def
      keys_def split: sum.splits)

text \<open>
  Claim C3, as the code has it. Let the region's policy map have distinct keys, each
  policy a mapping whose \<^verbatim>\<open>name\<close> is its key (which the loader checks). When the
  compile succeeds, the names of the compiled policies are the keys of the map in ascending
  order, followed by \<^verbatim>\<open>c7n-cleanup-lambda\<close> and then \<^verbatim>\<open>c7n-cleanup-cwe\<close>: the two
  cleanup policies are appended after the sorted policies, in this fixed order.
\<close>

theorem generate_configs_order:
  assumes "compiled_names an checks policies defaults = Inr ns"
    and "distinct (keys policies)"
    and "\<forall>kp\<in>set policies. \<exists>p. snd kp = YDict p \<and> distinct (keys p)
            \<and> map_of p ''name'' = Some (YStr (fst kp))"
  shows "\<exists>names. sorted names \<and> distinct names \<and> set names = set (keys policies)
     \<and> ns = map YStr names @ [YStr ''c7n-cleanup-lambda'', YStr ''c7n-cleanup-cwe'']"
proof -
  from assms(1) obtain result where gen: "generate_configs an checks policies defaults = Inr result"
    by (auto simp: compiled_names_def split: sum.splits)
  let ?ks = "sort (keys policies)"
  from gen obtain confs cl cconfs where
    confs: "apply_defaults_keys an defaults policies ?ks = Inr confs"
    and cl: "generate_cleanup_policies confs = Inr cl"
    and cconfs: "apply_defaults_all an defaults cl = Inr cconfs"
    and res: "result = YDict [(''policies'', YList (confs @ cconfs))]"
    by (auto simp: generate_configs_def split: sum.splits)
  have look: "\<forall>k\<in>set ?ks. \<exists>p. map_of policies k = Some (YDict p) \<and> distinct (keys p)
            \<and> map_of p ''name'' = Some (YStr k)"
  proof
    fix k assume "k \<in> set ?ks"
    then obtain pol where kp: "(k, pol) \<in> set policies" by (auto simp: keys_def)
    then have "map_of policies k = Some pol" using assms(2) by (simp add: keys_def)
    then show "\<exists>p. map_of policies k = Some (YDict p) \<and> distinct (keys p)
            \<and> map_of p ''name'' = Some (YStr k)" using assms(3) kp by fastforce
  qed
  have n1: "policy_names confs = Inr (map YStr ?ks)"
    using apply_defaults_keys_names[OF confs look] .
  from cleanup_shape[OF cl] obtain l c where lc: "cl = [YDict l, YDict c]"
    "distinct (keys l)" "map_of l ''name'' = Some (YStr ''c7n-cleanup-lambda'')"
    "distinct (keys c)" "map_of c ''name'' = Some (YStr ''c7n-cleanup-cwe'')" by blast
  have "\<forall>i<length cl. \<exists>p. cl ! i = YDict p \<and> distinct (keys p)
            \<and> map_of p ''name'' = Some (YStr ([''c7n-cleanup-lambda'', ''c7n-cleanup-cwe''] ! i))"
    using lc by (auto simp: less_Suc_eq)
  from apply_defaults_all_names[OF cconfs this] lc(1)
  have n2: "policy_names cconfs = Inr [YStr ''c7n-cleanup-lambda'', YStr ''c7n-cleanup-cwe'']"
    by simp
  have "compiled_names an checks policies defaults
      = Inr (map YStr ?ks @ [YStr ''c7n-cleanup-lambda'', YStr ''c7n-cleanup-cwe''])"
    using gen res policy_names_append[OF n1 n2]
    by (simp add: compiled_names_def py_getitem_def py_iter_def)
  then have "ns = map YStr ?ks @ [YStr ''c7n-cleanup-lambda'', YStr ''c7n-cleanup-cwe'']"
    using assms(1) by simp
  moreover have "sorted ?ks" "distinct ?ks" "set ?ks = set (keys policies)"
    using assms(2) by (simp_all add: keys_def)
  ultimately show ?thesis by blast
qed


theorem generate_configs_order_witness:
  "compiled_names None policy_checks
     [(''p2'', YDict [(''name'', YStr ''p2'')]), (''p1'', YDict [(''name'', YStr ''p1'')])]
     (YDict [(''mode'', YDict [(''type'', YStr ''periodic'')])])
   = Inr [YStr ''p1'', YStr ''p2'', YStr ''c7n-cleanup-lambda'', YStr ''c7n-cleanup-cwe'']"
proof -
  have a: "compiled_names None policy_checks
     [(''p2'', YDict [(''name'', YStr ''p2'')]), (''p1'', YDict [(''name'', YStr ''p1'')])]
     (YDict [(''mode'', YDict [(''type'', YStr ''periodic'')])])
   = Inr [YStr ''p1'', YStr ''p2'', YStr ''c7n-cleanup-lambda'', YStr ''c7n-cleanup-cwe'']"
    by code_simp
  have b: "distinct (keys [(''p2'', YDict [(''name'', YStr ''p2'')]), (''p1'', YDict [(''name'', YStr ''p1'')])])"
    by (simp add: keys_def)
  have c: "\<forall>kp\<in>set [(''p2'', YDict [(''name'', YStr ''p2'')]), (''p1'', YDict [(''name'', YStr ''p1'')])].
       \<exists>p. snd kp = YDict p \<and> distinct (keys p) \<and> map_of p ''name'' = Some (YStr (fst kp))"
    by (simp add: keys_def)
  show ?thesis using a generate_configs_order [OF a b c] by simp
qed

text \<open>
  Claim C3 as stated fails: the cleanup policies come last, whatever the names before
  them, and \<^verbatim>\<open>c7n-cleanup-lambda\<close> comes before \<^verbatim>\<open>c7n-cleanup-cwe\<close>.
\<close>

theorem cleanup_policies_last_counterexample:
  "compiled_names None policy_checks
     [(''zzz'', YDict [(''name'', YStr ''zzz'')])]
     (YDict [(''mode'', YDict [(''type'', YStr ''periodic'')])])
   = Inr [YStr ''zzz'', YStr ''c7n-cleanup-lambda'', YStr ''c7n-cleanup-cwe'']
   \<and> \<not> sorted [''zzz'', ''c7n-cleanup-lambda'', ''c7n-cleanup-cwe'']"
  by code_simp

section \<open>Merging a policy with itself\<close>













end
